theory Spec2Isabelle
  imports Complex_Main "HOL-Library.Sublist" "HOL-Library.Multiset"
begin

section \<open>The hydraulic network solver of siphonicad (class \<open>Calculations\<close>)\<close>

text \<open>
  The solver takes the flat, drawn list of components, normalizes it
  (\<open>fillTee\<close>, \<open>fillCapacity\<close>, \<open>fillDiameter\<close>), slices it into one path per
  outlet (\<open>splitByOutlet\<close>), splices reducers (\<open>insertReducersForDiameterChanges\<close>)
  and evaluates every path row by row (\<open>preNormalize\<close>, \<open>normalize\<close>).

  Numbers. A TypeScript \<open>number\<close> that measures something (diameter, length,
  capacity, coordinates and every derived field of a row) is a \<open>real\<close> here; a
  \<open>number\<close> that names something (\<open>id\<close>, \<open>tee_ref\<close>, \<open>draw_index\<close>, the row's
  \<open>index\<close>) is an \<open>int\<close>. The model has no rounding and no signed zero, and the
  numbers a drawing enters are finite. Two divisions of the evaluator have no
  guard on their divisor (\<open>q90 / a\<close> in the tee loss, \<open>1 / inner\<^sup>2\<close> in the friction
  factor); the row fields their results reach (\<open>f\<close>, \<open>ktee\<close>, \<open>ktotal\<close>, \<open>delta_H\<close>,
  \<open>delta_P\<close>) are of the type \<open>number\<close>, which has the infinities and NaN. Every
  other division of the source is guarded, and the fields it feeds stay \<open>real\<close>.
  An optional field (\<open>?\<close>, \<open>| null\<close>) is an \<open>option\<close>: both \<open>undefined\<close>
  and \<open>null\<close> are \<open>None\<close>, which is how \<open>??\<close>, \<open>== null\<close> and
  \<open>typeof v === "number"\<close> treat them.

  Names. Fields keep the source's names with the suffix \<open>_c\<close> (component) or
  \<open>_r\<close> (row), since \<open>id\<close>, \<open>length\<close>, \<open>Re\<close> and the one-letter fields would
  otherwise hide constants and variables of HOL.
\<close>

subsection \<open>Data model\<close>

datatype componentKind = node | edge

record EquationsComponent =
  component_c :: componentKind
  id_c :: int
  type_c :: "string option"
  fromId_c :: "int option"
  toId_c :: "int option"
  x_c :: "real option"
  y_c :: "real option"
  diameter_c :: "real option"
  length_c :: "real option"
  capacity_c :: "real option"
  tee_ref_c :: "int option"
  draw_index_c :: "int option"
  vertical_c :: "bool option"

text \<open>\<open>v ?? 0\<close> on an optional number.\<close>

definition orZero :: "real option \<Rightarrow> real" where
  "orZero v = (case v of Some q \<Rightarrow> q | None \<Rightarrow> 0)"

subsection \<open>Capacity fill (\<open>fillCapacity\<close>)\<close>

text \<open>
  The source reverses a copy of the list, maps over it with two mutable
  variables (\<open>current\<close> and the map \<open>sideFlowByRef\<close>) and reverses the result.
  \<open>fillCapacity_map\<close> is the body of that \<open>map\<close> with the two variables passed along.
\<close>

fun fillCapacity_map ::
  "real \<Rightarrow> (int \<rightharpoonup> real) \<Rightarrow> EquationsComponent list \<Rightarrow> EquationsComponent list" where
  "fillCapacity_map current sideFlowByRef [] = []"
| "fillCapacity_map current sideFlowByRef (c # rest) =
    (if type_c c = Some ''outlet'' then
       (let own = orZero (capacity_c c) in
          c\<lparr>capacity_c := Some own\<rparr> # fillCapacity_map (current + own) sideFlowByRef rest)
     else if type_c c = Some ''tee_side'' \<and> tee_ref_c c \<noteq> None then
       c\<lparr>capacity_c := Some current\<rparr>
         # fillCapacity_map 0 (sideFlowByRef(the (tee_ref_c c) \<mapsto> current)) rest
     else if type_c c = Some ''tee_main'' \<and> tee_ref_c c \<noteq> None then
       (let side = orZero (sideFlowByRef (the (tee_ref_c c))) in
          c\<lparr>capacity_c := Some current\<rparr>
            # fillCapacity_map (current + side) sideFlowByRef rest)
     else c\<lparr>capacity_c := Some current\<rparr> # fillCapacity_map current sideFlowByRef rest)"

definition fillCapacity :: "EquationsComponent list \<Rightarrow> EquationsComponent list" where
  "fillCapacity components = rev (fillCapacity_map 0 Map.empty (rev components))"

text \<open>Vocabulary of the flow-conservation property.\<close>

definition isTeeSide :: "int \<Rightarrow> EquationsComponent \<Rightarrow> bool" where
  "isTeeSide r c = (type_c c = Some ''tee_side'' \<and> tee_ref_c c = Some r)"

definition isTeeMain :: "int \<Rightarrow> EquationsComponent \<Rightarrow> bool" where
  "isTeeMain r c = (type_c c = Some ''tee_main'' \<and> tee_ref_c c = Some r)"

text \<open>
  The side flow that a \<open>tee_main\<close> with reference \<open>r\<close> sees: the capacity of the
  first \<open>tee_side\<close> with reference \<open>r\<close> among the components \<open>zs\<close> drawn after it,
  and 0 when there is none.
\<close>

definition sideFlowAfter :: "int \<Rightarrow> EquationsComponent list \<Rightarrow> real" where
  "sideFlowAfter r zs = (case find (isTeeSide r) zs of Some c \<Rightarrow> orZero (capacity_c c) | None \<Rightarrow> 0)"

text \<open>A component literal with every optional field absent.\<close>

definition mk :: "componentKind \<Rightarrow> int \<Rightarrow> string \<Rightarrow> EquationsComponent" where
  "mk k i t = \<lparr>component_c = k, id_c = i, type_c = Some t, fromId_c = None, toId_c = None,
     x_c = None, y_c = None, diameter_c = None, length_c = None, capacity_c = None,
     tee_ref_c = None, draw_index_c = None, vertical_c = None\<rparr>"

text \<open>
  The list \<open>fillTee\<close> produces from the drawing
  discharge, pipe, outlet (2 L/s), pipe, tee, pipe, outlet (3 L/s):
  the tee is paired with the first outlet, which lies before it, and the
  synthetic \<open>tee_side\<close> and \<open>elbow45\<close> follow that outlet.
\<close>

definition sideBeforeMain :: "EquationsComponent list" where
  "sideBeforeMain =
    [mk node 0 ''discharge'',
     mk edge 1 ''pipe'',
     (mk node 2 ''outlet'')\<lparr>capacity_c := Some 2, tee_ref_c := Some 0\<rparr>,
     (mk node 7 ''tee_side'')\<lparr>fromId_c := Some 2, toId_c := Some 3, tee_ref_c := Some 0\<rparr>,
     (mk node 9 ''elbow45'')\<lparr>fromId_c := Some 7, toId_c := Some 3, tee_ref_c := Some 0\<rparr>,
     mk edge 3 ''pipe'',
     (mk node 4 ''tee_main'')\<lparr>tee_ref_c := Some 0\<rparr>,
     mk edge 5 ''pipe'',
     (mk node 6 ''outlet'')\<lparr>capacity_c := Some 3\<rparr>]"

text \<open>
  Scenario B of the specification after \<open>fillTee\<close>: the tee, its main outlet
  (3 L/s), then the synthetic \<open>tee_side\<close> and \<open>elbow45\<close> and the side branch with its
  outlet (2 L/s).
\<close>

definition scenarioB :: "EquationsComponent list" where
  "scenarioB =
    [mk node 0 ''discharge'',
     (mk edge 1 ''pipe'')\<lparr>diameter_c := Some 100, length_c := Some 10\<rparr>,
     (mk node 2 ''tee_main'')\<lparr>tee_ref_c := Some 0\<rparr>,
     (mk edge 3 ''pipe'')\<lparr>diameter_c := Some 100, length_c := Some 4\<rparr>,
     (mk node 4 ''outlet'')\<lparr>capacity_c := Some 3, tee_ref_c := Some 0\<rparr>,
     (mk node 7 ''tee_side'')\<lparr>fromId_c := Some 4, toId_c := Some 5, tee_ref_c := Some 0\<rparr>,
     (mk node 9 ''elbow45'')\<lparr>fromId_c := Some 7, toId_c := Some 5, tee_ref_c := Some 0\<rparr>,
     (mk edge 5 ''pipe'')\<lparr>diameter_c := Some 100, length_c := Some 6\<rparr>,
     (mk node 6 ''outlet'')\<lparr>capacity_c := Some 2\<rparr>]"

subsection \<open>Diameter fill (\<open>fillDiameter\<close>)\<close>

text \<open>
  \<open>components.map\<close> with the mutable variable \<open>current\<close>: a pipe that has a
  diameter sets \<open>current\<close>, and every component is stamped with \<open>current\<close>.
\<close>

fun fillDiameter_map :: "real \<Rightarrow> EquationsComponent list \<Rightarrow> EquationsComponent list" where
  "fillDiameter_map current [] = []"
| "fillDiameter_map current (c # rest) =
    (let current' =
       (if type_c c = Some ''pipe'' \<and> diameter_c c \<noteq> None then the (diameter_c c) else current)
     in c\<lparr>diameter_c := Some current'\<rparr> # fillDiameter_map current' rest)"

text \<open>\<open>components[1]?.diameter ?? 0\<close>\<close>

fun startDiameter :: "EquationsComponent list \<Rightarrow> real" where
  "startDiameter (c0 # c1 # rest) = orZero (diameter_c c1)"
| "startDiameter components = 0"

definition fillDiameter :: "EquationsComponent list \<Rightarrow> EquationsComponent list" where
  "fillDiameter components = fillDiameter_map (startDiameter components) components"

subsection \<open>Reducer insertion (\<open>insertReducersForDiameterChanges\<close>)\<close>

text \<open>The largest \<open>id\<close> of all paths, starting from \<open>-1\<close>.\<close>

definition maxIdOf :: "EquationsComponent list list \<Rightarrow> int" where
  "maxIdOf paths =
     fold (\<lambda>path m. fold (\<lambda>c m'. if id_c c > m' then id_c c else m') path m) paths (- 1)"

text \<open>\<open>curr.diameter ?? next.diameter ?? 0\<close> and \<open>next.diameter ?? curr.diameter ?? 0\<close>\<close>

definition currD :: "EquationsComponent \<Rightarrow> EquationsComponent \<Rightarrow> real" where
  "currD cur nxt =
     (case diameter_c cur of Some d \<Rightarrow> d | None \<Rightarrow> orZero (diameter_c nxt))"

definition nextD :: "EquationsComponent \<Rightarrow> EquationsComponent \<Rightarrow> real" where
  "nextD cur nxt =
     (case diameter_c nxt of Some d \<Rightarrow> d | None \<Rightarrow> orZero (diameter_c cur))"

text \<open>The two nested conditions under which the loop pushes a reducer.\<close>

definition needsReducer :: "EquationsComponent \<Rightarrow> EquationsComponent \<Rightarrow> bool" where
  "needsReducer cur nxt =
     (component_c cur = node \<and> type_c cur \<noteq> Some ''reducer'' \<and> type_c nxt = Some ''pipe''
      \<and> currD cur nxt > 0 \<and> nextD cur nxt > 0 \<and> currD cur nxt \<noteq> nextD cur nxt)"

text \<open>The object literal \<open>reducer\<close>; the fields it does not list are absent.\<close>

definition mkReducer :: "int \<Rightarrow> EquationsComponent \<Rightarrow> EquationsComponent \<Rightarrow> EquationsComponent" where
  "mkReducer newId cur nxt =
     \<lparr>component_c = node, id_c = newId, type_c = Some ''reducer'',
      fromId_c = None, toId_c = None, x_c = x_c cur, y_c = y_c cur,
      diameter_c = Some (currD cur nxt), length_c = None,
      capacity_c = Some (case capacity_c nxt of Some q \<Rightarrow> q | None \<Rightarrow> orZero (capacity_c cur)),
      tee_ref_c = None, draw_index_c = None, vertical_c = None\<rparr>"

text \<open>
  The inner loop over one path: \<open>curr\<close> is pushed, and when \<open>next\<close> exists and the
  conditions hold a reducer with id \<open>++maxId\<close> is pushed after it. The function
  returns the new path and the value of \<open>maxId\<close> after the path.
\<close>

fun insertReducers_path :: "int \<Rightarrow> EquationsComponent list \<Rightarrow> EquationsComponent list \<times> int" where
  "insertReducers_path maxId [] = ([], maxId)"
| "insertReducers_path maxId [cur] = ([cur], maxId)"
| "insertReducers_path maxId (cur # nxt # rest) =
    (if needsReducer cur nxt then
       (let (newPath, maxId') = insertReducers_path (maxId + 1) (nxt # rest)
        in (cur # mkReducer (maxId + 1) cur nxt # newPath, maxId'))
     else
       (let (newPath, maxId') = insertReducers_path maxId (nxt # rest)
        in (cur # newPath, maxId')))"

text \<open>The outer loop over the paths; \<open>maxId\<close> runs through all of them.\<close>

fun insertReducers_paths :: "int \<Rightarrow> EquationsComponent list list \<Rightarrow> EquationsComponent list list" where
  "insertReducers_paths maxId [] = []"
| "insertReducers_paths maxId (path # paths) =
    (let (newPath, maxId') = insertReducers_path maxId path
     in newPath # insertReducers_paths maxId' paths)"

definition insertReducersForDiameterChanges ::
  "EquationsComponent list list \<Rightarrow> EquationsComponent list list" where
  "insertReducersForDiameterChanges paths =
     (if paths = [] then paths else insertReducers_paths (maxIdOf paths) paths)"

text \<open>
  Vocabulary of the reducer-insertion property. \<open>diameterChangeAt p i\<close>: at
  position \<open>i\<close> of the path a non-reducer node is immediately followed by a pipe,
  both diameters are resolved and positive, and they differ.
  \<open>changesBefore p i\<close> counts such positions before \<open>i\<close>.
\<close>

definition diameterChangeAt :: "EquationsComponent list \<Rightarrow> nat \<Rightarrow> bool" where
  "diameterChangeAt p i =
     (Suc i < length p \<and> component_c (p ! i) = node \<and> type_c (p ! i) \<noteq> Some ''reducer''
      \<and> type_c (p ! Suc i) = Some ''pipe''
      \<and> (case (diameter_c (p ! i), diameter_c (p ! Suc i)) of
           (Some d1, Some d2) \<Rightarrow> 0 < d1 \<and> 0 < d2 \<and> d1 \<noteq> d2
         | _ \<Rightarrow> False))"

definition changesBefore :: "EquationsComponent list \<Rightarrow> nat \<Rightarrow> nat" where
  "changesBefore p i = length (filter (diameterChangeAt p) [0..<i])"

definition resolved :: "EquationsComponent list \<Rightarrow> bool" where
  "resolved p = list_all (\<lambda>c. diameter_c c \<noteq> None) p"

text \<open>
  Scenario C of the specification as one path: a pipe of diameter 100, a plain
  elbow, a pipe of diameter 80.
\<close>

definition scenarioC :: "EquationsComponent list" where
  "scenarioC =
    [(mk node 0 ''discharge'')\<lparr>diameter_c := Some 100, capacity_c := Some 5\<rparr>,
     (mk edge 1 ''pipe'')\<lparr>diameter_c := Some 100, capacity_c := Some 5\<rparr>,
     (mk node 2 ''elbow90'')\<lparr>diameter_c := Some 100, capacity_c := Some 5\<rparr>,
     (mk edge 3 ''pipe'')\<lparr>diameter_c := Some 80, capacity_c := Some 5\<rparr>,
     (mk node 4 ''outlet'')\<lparr>diameter_c := Some 80, capacity_c := Some 5\<rparr>]"

subsection \<open>Rows (\<open>EquationRow\<close>) and the row projector (\<open>preNormalize\<close>)\<close>

text \<open>
  \<open>preNormalize\<close> writes every field of a row, and \<open>normalize\<close> is only ever
  applied to its output, so the row's fields are total here and the \<open>?? 0\<close> that
  \<open>normalize\<close> puts on each read is the identity.
\<close>

text \<open>
  A JavaScript number that may fail to be finite, with the arithmetic of
  IEEE 754 on the infinities and NaN (and exact arithmetic on the finite values).
\<close>

datatype number = Finite real | PosInfinity | NegInfinity | NaN

fun numAdd :: "number \<Rightarrow> number \<Rightarrow> number" where
  "numAdd (Finite x) (Finite y) = Finite (x + y)"
| "numAdd NaN y = NaN"
| "numAdd x NaN = NaN"
| "numAdd PosInfinity NegInfinity = NaN"
| "numAdd NegInfinity PosInfinity = NaN"
| "numAdd PosInfinity y = PosInfinity"
| "numAdd NegInfinity y = NegInfinity"
| "numAdd (Finite x) y = y"

fun numNeg :: "number \<Rightarrow> number" where
  "numNeg (Finite x) = Finite (- x)"
| "numNeg PosInfinity = NegInfinity"
| "numNeg NegInfinity = PosInfinity"
| "numNeg NaN = NaN"

definition numSub :: "number \<Rightarrow> number \<Rightarrow> number" where
  "numSub x y = numAdd x (numNeg y)"

text \<open>The infinity of the sign of \<open>x\<close>; NaN for \<open>x = 0\<close> (as in \<open>Infinity * 0\<close>, \<open>0 / 0\<close>).\<close>

definition signedInfinity :: "real \<Rightarrow> number" where
  "signedInfinity x = (if x = 0 then NaN else if x > 0 then PosInfinity else NegInfinity)"

fun numMul :: "number \<Rightarrow> number \<Rightarrow> number" where
  "numMul (Finite x) (Finite y) = Finite (x * y)"
| "numMul NaN y = NaN"
| "numMul x NaN = NaN"
| "numMul (Finite x) PosInfinity = signedInfinity x"
| "numMul (Finite x) NegInfinity = signedInfinity (- x)"
| "numMul PosInfinity (Finite y) = signedInfinity y"
| "numMul NegInfinity (Finite y) = signedInfinity (- y)"
| "numMul PosInfinity PosInfinity = PosInfinity"
| "numMul NegInfinity NegInfinity = PosInfinity"
| "numMul PosInfinity NegInfinity = NegInfinity"
| "numMul NegInfinity PosInfinity = NegInfinity"

text \<open>
  \<open>x / y\<close> on finite operands. Both unguarded divisors of the source are results
  of \<open>Math.pow(_, 2)\<close>, so a zero divisor is the positive zero.
\<close>

definition realDiv :: "real \<Rightarrow> real \<Rightarrow> number" where
  "realDiv x y = (if y = 0 then signedInfinity x else Finite (x / y))"

text \<open>\<open>Math.pow(x, 2)\<close>\<close>

fun numSquare :: "number \<Rightarrow> number" where
  "numSquare (Finite x) = Finite (x\<^sup>2)"
| "numSquare PosInfinity = PosInfinity"
| "numSquare NegInfinity = PosInfinity"
| "numSquare NaN = NaN"



record EquationRow =
  index_r :: int
  item_r :: string
  Q_r :: real
  d_r :: real
  L_r :: real
  vertical_r :: bool
  elbow_r :: real
  reducer_r :: bool
  t90_r :: real
  d90_r :: real
  q90_r :: real
  di_r :: real
  V_r :: real
  h_r :: real
  Re_r :: real
  f_r :: number
  a_r :: real
  ktee_r :: number
  kred_r :: real
  ktotal_r :: number
  vp_r :: real
  delta_H_r :: number
  delta_P_r :: number

definition getDi :: "real \<Rightarrow> real" where
  "getDi diameter = (0.922 * diameter) / 1000"

definition getVelocity :: "real \<Rightarrow> real \<Rightarrow> real" where
  "getVelocity Q di = (if di = 0 then 0 else (Q * 0.004) / (pi * di * di))"

definition countElbow :: "EquationsComponent \<Rightarrow> real" where
  "countElbow c = (if type_c c = Some ''elbow90'' then 2
                   else if type_c c = Some ''elbow45'' then 1 else 0)"

definition getT90 :: "EquationsComponent \<Rightarrow> real" where
  "getT90 c = (if type_c c = Some ''tee_main'' then 1
               else if type_c c = Some ''tee_side'' then 0.5 else 0)"

definition getQ90 :: "EquationsComponent \<Rightarrow> real" where
  "getQ90 c = (if type_c c = Some ''tee_main'' then 0.5
               else if type_c c = Some ''tee_side'' then 1 else 0)"

text \<open>\<open>s.startsWith("tee")\<close>\<close>

definition startsWithTee :: "string \<Rightarrow> bool" where
  "startsWithTee s = (take 3 s = ''tee'')"

text \<open>
  \<open>this.canonicalComponents.length > 0 ? this.canonicalComponents : this.input.components\<close>
\<close>

definition lookupComponents ::
  "EquationsComponent list \<Rightarrow> EquationsComponent list \<Rightarrow> EquationsComponent list" where
  "lookupComponents canonicalComponents inputComponents =
     (if length canonicalComponents > 0 then canonicalComponents else inputComponents)"

definition getD90 ::
  "EquationsComponent list \<Rightarrow> EquationsComponent list \<Rightarrow> EquationsComponent \<Rightarrow> real" where
  "getD90 canonicalComponents inputComponents c =
     (if \<not> (case type_c c of Some t \<Rightarrow> startsWithTee t | None \<Rightarrow> False) then 0
      else case draw_index_c c of
        None \<Rightarrow> 0
      | Some drawIndex \<Rightarrow>
          (case find (\<lambda>c'. draw_index_c c' = Some (drawIndex + 1))
                  (lookupComponents canonicalComponents inputComponents) of
             None \<Rightarrow> 0
           | Some nxt \<Rightarrow> orZero (diameter_c nxt)))"

definition computeVerticalFlag :: "EquationsComponent \<Rightarrow> EquationsComponent list \<Rightarrow> bool" where
  "computeVerticalFlag c components =
     (if type_c c \<noteq> Some ''pipe'' then False
      else case (fromId_c c, toId_c c) of
        (Some fromId, Some toId) \<Rightarrow>
          (case (find (\<lambda>n. component_c n = node \<and> id_c n = fromId) components,
                 find (\<lambda>n. component_c n = node \<and> id_c n = toId) components) of
             (Some fromNode, Some toNode) \<Rightarrow>
               (case (x_c fromNode, x_c toNode, y_c fromNode, y_c toNode) of
                  (Some fx, Some tx, Some fy, Some ty) \<Rightarrow>
                    \<bar>fx - tx\<bar> \<le> 0.001 \<and> \<bar>fy - ty\<bar> > 0.001
                | _ \<Rightarrow> False)
           | _ \<Rightarrow> False)
      | _ \<Rightarrow> False)"

definition isVertical ::
  "EquationsComponent list \<Rightarrow> EquationsComponent list \<Rightarrow> EquationsComponent \<Rightarrow> bool" where
  "isVertical canonicalComponents inputComponents c =
     (if type_c c \<noteq> Some ''pipe'' then False
      else case vertical_c c of
        Some v \<Rightarrow> v
      | None \<Rightarrow> computeVerticalFlag c (lookupComponents canonicalComponents inputComponents))"

text \<open>
  The row of one component; \<open>index\<close> is the component's position in its path
  (from 0), used only when the component has no draw index.
\<close>

definition preNormalize_row ::
  "EquationsComponent list \<Rightarrow> EquationsComponent list \<Rightarrow> nat \<Rightarrow> EquationsComponent \<Rightarrow> EquationRow" where
  "preNormalize_row canonicalComponents inputComponents index c =
     (let di = getDi (orZero (diameter_c c));
          drawIndex = (case draw_index_c c of Some k \<Rightarrow> k | None \<Rightarrow> int index + 1)
      in \<lparr>index_r = drawIndex,
          item_r = (case type_c c of Some t \<Rightarrow> t | None \<Rightarrow> ''''),
          Q_r = orZero (capacity_c c),
          d_r = orZero (diameter_c c),
          L_r = orZero (length_c c),
          vertical_r = isVertical canonicalComponents inputComponents c,
          elbow_r = countElbow c,
          reducer_r = (type_c c = Some ''reducer''),
          t90_r = getT90 c,
          d90_r = getD90 canonicalComponents inputComponents c,
          q90_r = getQ90 c,
          di_r = di,
          V_r = getVelocity (orZero (capacity_c c)) di,
          h_r = 0, Re_r = 0, f_r = Finite 0, a_r = 0, ktee_r = Finite 0, kred_r = 0,
          ktotal_r = Finite 0, vp_r = 0, delta_H_r = Finite 0, delta_P_r = Finite 0\<rparr>)"

definition preNormalize_path ::
  "EquationsComponent list \<Rightarrow> EquationsComponent list \<Rightarrow> EquationsComponent list \<Rightarrow> EquationRow list" where
  "preNormalize_path canonicalComponents inputComponents compSet =
     map (\<lambda>(index, c). preNormalize_row canonicalComponents inputComponents index c)
       (enumerate 0 compSet)"

definition preNormalize ::
  "EquationsComponent list \<Rightarrow> EquationsComponent list \<Rightarrow> EquationsComponent list list
     \<Rightarrow> EquationRow list list" where
  "preNormalize canonicalComponents inputComponents components =
     map (preNormalize_path canonicalComponents inputComponents) components"

subsection \<open>The hydraulic evaluator (\<open>normalize\<close>)\<close>

text \<open>
  Each loop of \<open>normalize\<close> is one function. The first and the last loop read the
  row before the current one after it has been updated, so they pass it along
  (\<open>prev\<close>); the other loops touch one row at a time and are maps.
\<close>

fun headAreaLoop :: "EquationRow \<Rightarrow> EquationRow list \<Rightarrow> EquationRow list" where
  "headAreaLoop prev [] = []"
| "headAreaLoop prev (c # rest) =
    (let c' = c\<lparr>h_r := h_r c + (h_r prev + L_r prev * (if vertical_r prev then 1 else 0)),
                a_r := (case rest of
                          [] \<Rightarrow> a_r prev
                        | nxt # _ \<Rightarrow> if di_r nxt = 0 then 0 else (di_r c / di_r nxt)\<^sup>2)\<rparr>
     in c' # headAreaLoop c' rest)"

definition headArea :: "EquationRow list \<Rightarrow> EquationRow list" where
  "headArea updated = (case updated of [] \<Rightarrow> [] | r0 # rest \<Rightarrow> r0 # headAreaLoop r0 rest)"

definition reynoldsVp :: "EquationRow \<Rightarrow> EquationRow" where
  "reynoldsVp c =
     c\<lparr>Re_r := (if di_r c = 0 then 0 else (di_r c * V_r c) / 0.000001),
       vp_r := (V_r c * V_r c) / (2 * 9.81)\<rparr>"

definition friction :: "EquationRow \<Rightarrow> EquationRow" where
  "friction c =
     (if item_r c = ''pipe'' then
        (if d_r c > 0 \<and> Re_r c > 0 then
           (let inner = 0.86 * ln (0.2 / (d_r c * 3.7) + 5.74 / (Re_r c powr 0.9))
            in c\<lparr>f_r := realDiv 1 (inner\<^sup>2)\<rparr>)
         else c\<lparr>f_r := Finite 0\<rparr>)
      else c)"

definition dischargeArea :: "EquationRow \<Rightarrow> EquationRow" where
  "dischargeArea c = (if item_r c = ''discharge'' then c\<lparr>a_r := 1\<rparr> else c)"

definition reducerLoss :: "EquationRow \<Rightarrow> EquationRow" where
  "reducerLoss c =
     (if a_r c > 1 then c\<lparr>kred_r := (a_r c - 1)\<^sup>2\<rparr>
      else if a_r c = 1 then c\<lparr>kred_r := 0\<rparr>
      else c\<lparr>kred_r := - 0.513 * a_r c + 0.51\<rparr>)"

definition teeLoss :: "EquationRow \<Rightarrow> EquationRow" where
  "teeLoss c =
     (if startsWithTee (item_r c) then
        (if d_r c = 0 then c
         else
           (let a = (d90_r c / d_r c)\<^sup>2 in
              if t90_r c = 1 then
                (let q90 = q90_r c;
                     multiplier = (if a > 0.35 then 0.55 else 1)
                 in c\<lparr>ktee_r :=
                      numMul (Finite multiplier)
                        (numSub
                           (numSub (numAdd (Finite 1) (numSquare (realDiv q90 a)))
                              (Finite (2 * (1 - q90)\<^sup>2)))
                           (Finite ((1.414 * q90\<^sup>2) / 1)))\<rparr>)
              else if t90_r c = 0.5 then
                (if d90_r c \<noteq> 0
                 then c\<lparr>ktee_r := numSub (Finite 0.75) (realDiv 0.35 a)\<rparr> else c)
              else c))
      else c)"

definition totalLoss :: "EquationRow \<Rightarrow> EquationRow" where
  "totalLoss c =
     (if item_r c = ''discharge'' then
        c\<lparr>a_r := 1, ktotal_r := Finite 1, delta_H_r := numMul (Finite 1) (Finite (vp_r c))\<rparr>
      else
        (let major = (if di_r c = 0 then Finite 0
                      else numMul (f_r c) (Finite (L_r c / di_r c)));
             minor = numAdd (Finite (elbow_r c * 0.2 + kred_r c)) (ktee_r c)
         in c\<lparr>ktotal_r := numAdd major minor,
              delta_H_r := numMul (numAdd major minor) (Finite (vp_r c))\<rparr>))"

text \<open>
  \<open>if (updated.length > 1)\<close>: a last row with \<open>delta_H\<close> 0 takes the \<open>delta_H\<close> of
  the row before it.
\<close>

definition lastDeltaH :: "EquationRow list \<Rightarrow> EquationRow list" where
  "lastDeltaH updated =
     (if length updated > 1 then
        (let lst = updated ! (length updated - 1);
             prev = updated ! (length updated - 2)
         in if delta_H_r lst = Finite 0
            then updated[length updated - 1 := lst\<lparr>delta_H_r := delta_H_r prev\<rparr>]
            else updated)
      else updated)"

fun pressureLoop :: "EquationRow \<Rightarrow> EquationRow list \<Rightarrow> EquationRow list" where
  "pressureLoop prev [] = []"
| "pressureLoop prev (c # rest) =
    (let c' = c\<lparr>delta_P_r :=
                  numAdd (numAdd (numAdd (delta_P_r prev) (delta_H_r prev))
                            (Finite (h_r prev - h_r c)))
                    (Finite (vp_r prev - vp_r c))\<rparr>
     in c' # pressureLoop c' rest)"

definition pressure :: "EquationRow list \<Rightarrow> EquationRow list" where
  "pressure updated = (case updated of [] \<Rightarrow> [] | r0 # rest \<Rightarrow> r0 # pressureLoop r0 rest)"

text \<open>
  The loops in the order of the source. The two assignments
  \<open>updated[0].ktotal = updated[0].ktotal ?? 1\<close> and
  \<open>updated[0].delta_P = updated[0].delta_P ?? 0\<close> write back a field that is
  present, so they change nothing.
\<close>

definition normalize_path :: "EquationRow list \<Rightarrow> EquationRow list" where
  "normalize_path compSet =
     pressure (lastDeltaH (map totalLoss (map teeLoss (map reducerLoss (map dischargeArea
       (map friction (map reynoldsVp (headArea compSet))))))))"

definition normalize :: "EquationRow list list \<Rightarrow> EquationRow list list" where
  "normalize compSets = map normalize_path compSets"

text \<open>
  Scenario A of the specification after normalization, which is also its only
  path: discharge, a pipe of 10 m, an outlet of 5 L/s, all of diameter 100.
\<close>

definition scenarioA :: "EquationsComponent list" where
  "scenarioA =
    [(mk node 0 ''discharge'')\<lparr>diameter_c := Some 100, capacity_c := Some 5,
        draw_index_c := Some 1\<rparr>,
     (mk edge 1 ''pipe'')\<lparr>diameter_c := Some 100, length_c := Some 10, capacity_c := Some 5,
        draw_index_c := Some 2\<rparr>,
     (mk node 2 ''outlet'')\<lparr>diameter_c := Some 100, capacity_c := Some 5,
        draw_index_c := Some 3\<rparr>]"

text \<open>
  A drawing on which no diameter has been entered yet, and its only path after
  normalization: \<open>fillDiameter\<close> stamps 0 on every component and \<open>fillCapacity\<close>
  carries the outlet's 5 L/s upstream.
\<close>

definition noDiameterDrawn :: "EquationsComponent list" where
  "noDiameterDrawn =
    [mk node 0 ''discharge'',
     (mk edge 1 ''pipe'')\<lparr>length_c := Some 10\<rparr>,
     (mk node 2 ''outlet'')\<lparr>capacity_c := Some 5\<rparr>]"

definition noDiameterPath :: "EquationsComponent list" where
  "noDiameterPath =
    [(mk node 0 ''discharge'')\<lparr>diameter_c := Some 0, capacity_c := Some 5\<rparr>,
     (mk edge 1 ''pipe'')\<lparr>diameter_c := Some 0, length_c := Some 10, capacity_c := Some 5\<rparr>,
     (mk node 2 ''outlet'')\<lparr>diameter_c := Some 0, capacity_c := Some 5\<rparr>]"

text \<open>A path that does not start at a discharge: a pipe and an outlet.\<close>

definition noDischargePath :: "EquationsComponent list" where
  "noDischargePath =
    [(mk edge 0 ''pipe'')\<lparr>diameter_c := Some 100, length_c := Some 10, capacity_c := Some 5\<rparr>,
     (mk node 1 ''outlet'')\<lparr>diameter_c := Some 100, capacity_c := Some 5\<rparr>]"


text \<open>
  A drawing, numbered by the drawing surface, on which the pipe after the tee
  has no diameter yet and the outlet no capacity; and its only path after
  normalization (the side branch reaches no outlet and is dropped).
\<close>

definition teeNoFlowDrawn :: "EquationsComponent list" where
  "teeNoFlowDrawn =
    [(mk node 0 ''discharge'')\<lparr>draw_index_c := Some 1\<rparr>,
     (mk edge 1 ''pipe'')\<lparr>diameter_c := Some 100, length_c := Some 10, draw_index_c := Some 2\<rparr>,
     (mk node 2 ''tee'')\<lparr>draw_index_c := Some 3\<rparr>,
     (mk edge 3 ''pipe'')\<lparr>length_c := Some 4, draw_index_c := Some 4\<rparr>,
     (mk node 4 ''outlet'')\<lparr>draw_index_c := Some 5\<rparr>]"

definition teeNoFlowPath :: "EquationsComponent list" where
  "teeNoFlowPath =
    [(mk node 0 ''discharge'')\<lparr>diameter_c := Some 100, capacity_c := Some 0,
        draw_index_c := Some 1\<rparr>,
     (mk edge 1 ''pipe'')\<lparr>diameter_c := Some 100, length_c := Some 10, capacity_c := Some 0,
        draw_index_c := Some 2\<rparr>,
     (mk node 2 ''tee_main'')\<lparr>diameter_c := Some 100, capacity_c := Some 0, tee_ref_c := Some 0,
        draw_index_c := Some 3\<rparr>,
     (mk edge 3 ''pipe'')\<lparr>diameter_c := Some 100, length_c := Some 4, capacity_c := Some 0,
        draw_index_c := Some 4\<rparr>,
     (mk node 4 ''outlet'')\<lparr>diameter_c := Some 100, capacity_c := Some 0, tee_ref_c := Some 0,
        draw_index_c := Some 5\<rparr>]"

text \<open>The six loops of \<open>normalize\<close> that are maps, as one function on a row.\<close>

definition rowLoops :: "EquationRow \<Rightarrow> EquationRow" where
  "rowLoops r = totalLoss (teeLoss (reducerLoss (dischargeArea (friction (reynoldsVp r)))))"

subsection \<open>Path decomposition (\<open>splitByOutlet\<close>)\<close>

text \<open>
  \<open>findIndex\<close> returns \<open>None\<close> where the source's returns \<open>-1\<close>; the callback sees
  the index and the element. \<open>slice a b\<close> is \<open>components.slice(a, b)\<close> for
  indices that are not negative.
\<close>

definition findIndex :: "(nat \<Rightarrow> 'a \<Rightarrow> bool) \<Rightarrow> 'a list \<Rightarrow> nat option" where
  "findIndex p xs = map_option fst (find (\<lambda>(i, x). p i x) (enumerate 0 xs))"

definition slice :: "nat \<Rightarrow> nat \<Rightarrow> 'a list \<Rightarrow> 'a list" where
  "slice a b xs = drop a (take b xs)"

text \<open>
  A JavaScript \<open>Map\<close> keeps its keys in the order of their first insertion, and
  \<open>set\<close> on a key that is present replaces the value in place.
\<close>

fun mapSet :: "'k \<Rightarrow> 'v \<Rightarrow> ('k \<times> 'v) list \<Rightarrow> ('k \<times> 'v) list" where
  "mapSet k v [] = [(k, v)]"
| "mapSet k v ((k', v') # m) = (if k' = k then (k, v) # m else (k', v') # mapSet k v m)"

text \<open>
  \<open>teeMainByRef\<close> (with \<open>''tee_main''\<close>) and \<open>teeSideByRef\<close> (with \<open>''tee_side''\<close>):
  the \<open>forEach\<close> that records, for each reference, the index of the last tee of
  that type carrying it.
\<close>

definition teeByRef :: "string \<Rightarrow> EquationsComponent list \<Rightarrow> (int \<times> nat) list" where
  "teeByRef t components =
     fold (\<lambda>(idx, c) m. if type_c c = Some t \<and> tee_ref_c c \<noteq> None
                          then mapSet (the (tee_ref_c c)) idx m else m)
       (enumerate 0 components) []"

definition isTeeType :: "EquationsComponent \<Rightarrow> bool" where
  "isTeeType c = (type_c c = Some ''tee_main'' \<or> type_c c = Some ''tee_side'')"

text \<open>
  The second loop of the side branch, from \<open>tee_side\<close> on: \<open>start\<close> tells whether
  \<open>i\<close> is still \<open>sideIdx\<close>.
\<close>

fun sideTail :: "bool \<Rightarrow> EquationsComponent list \<Rightarrow> EquationsComponent list" where
  "sideTail start [] = []"
| "sideTail start (c # rest) =
    (if \<not> start \<and> (type_c c = Some ''tee_main'' \<or> type_c c = Some ''discharge'') then []
     else c # (if type_c c = Some ''outlet'' then [] else sideTail False rest))"

definition sidePath :: "EquationsComponent list \<Rightarrow> nat \<Rightarrow> nat \<Rightarrow> nat \<Rightarrow> EquationsComponent list" where
  "sidePath components dischargeIndex mainIdx sideIdx =
     filter (\<lambda>c. \<not> isTeeType c) (slice dischargeIndex (min mainIdx sideIdx) components)
     @ sideTail True (drop sideIdx components)"

text \<open>
  The body of the loop over \<open>teeMainByRef.entries()\<close> for one entry: the paths it
  pushes onto \<open>result\<close>.
\<close>

definition branchPaths ::
  "EquationsComponent list \<Rightarrow> nat \<Rightarrow> (int \<times> nat) list \<Rightarrow> int \<Rightarrow> nat
     \<Rightarrow> EquationsComponent list list" where
  "branchPaths components dischargeIndex teeSideByRef ref mainIdx =
     (case findIndex (\<lambda>idx c. idx \<ge> mainIdx \<and> type_c c = Some ''outlet'' \<and> tee_ref_c c = Some ref)
             components of
        Some firstOutletIdx \<Rightarrow> [slice dischargeIndex (firstOutletIdx + 1) components]
      | None \<Rightarrow> [])
     @ (case map_of teeSideByRef ref of
          Some sideIdx \<Rightarrow>
            (let p = sidePath components dischargeIndex mainIdx sideIdx
             in if length p > 0 then [p] else [])
        | None \<Rightarrow> [])"

fun branchLoop ::
  "EquationsComponent list \<Rightarrow> nat \<Rightarrow> (int \<times> nat) list \<Rightarrow> int list \<Rightarrow> (int \<times> nat) list
     \<Rightarrow> EquationsComponent list list" where
  "branchLoop components dischargeIndex teeSideByRef handledRefs [] = []"
| "branchLoop components dischargeIndex teeSideByRef handledRefs ((ref, mainIdx) # entries) =
    (if ref \<in> set handledRefs
     then branchLoop components dischargeIndex teeSideByRef handledRefs entries
     else branchPaths components dischargeIndex teeSideByRef ref mainIdx
          @ branchLoop components dischargeIndex teeSideByRef (ref # handledRefs) entries)"

text \<open>
  The deduplication loop. \<open>lastOutletScan\<close> is its inner loop, which keeps the
  index of the last outlet of the path; \<open>seenOutletIds\<close> is passed along.
\<close>

fun lastOutletScan :: "nat \<Rightarrow> EquationsComponent list \<Rightarrow> nat option \<Rightarrow> nat option" where
  "lastOutletScan i [] lastOutletIdx = lastOutletIdx"
| "lastOutletScan i (c # rest) lastOutletIdx =
    lastOutletScan (i + 1) rest (if type_c c = Some ''outlet'' then Some i else lastOutletIdx)"

fun dedupLoop :: "int list \<Rightarrow> EquationsComponent list list \<Rightarrow> EquationsComponent list list" where
  "dedupLoop seenOutletIds [] = []"
| "dedupLoop seenOutletIds (path # rest) =
    (case lastOutletScan 0 path None of
       None \<Rightarrow> dedupLoop seenOutletIds rest
     | Some lastOutletIdx \<Rightarrow>
         (let lastOutletId = id_c (path ! lastOutletIdx) in
            if lastOutletId \<in> set seenOutletIds then dedupLoop seenOutletIds rest
            else slice 0 (lastOutletIdx + 1) path
                 # dedupLoop (lastOutletId # seenOutletIds) rest))"

text \<open>
  When no path survives: one path from the discharge to the last outlet of the
  whole list, or to the end of the list when there is no outlet.
\<close>

definition fallbackPath :: "EquationsComponent list \<Rightarrow> nat \<Rightarrow> EquationsComponent list" where
  "fallbackPath components dischargeIndex =
     (case map fst (filter (\<lambda>(idx, c). type_c c = Some ''outlet'') (enumerate 0 components)) of
        [] \<Rightarrow> drop dischargeIndex components
      | idxs \<Rightarrow> slice dischargeIndex (last idxs + 1) components)"

text \<open>The ordering of the output paths.\<close>

record PathMeta =
  path_m :: "EquationsComponent list"
  outletId_m :: int
  teeRef_m :: "int option"
  distFromTee_m :: real

definition pipeLength :: "EquationsComponent \<Rightarrow> real" where
  "pipeLength c = (if type_c c = Some ''pipe'' then orZero (length_c c) else 0)"

definition metaOf :: "EquationsComponent list \<Rightarrow> PathMeta" where
  "metaOf path =
     (let outletIdx = find (\<lambda>i. type_c (path ! i) = Some ''outlet'') (rev [0..<length path]);
          outlet = map_option (\<lambda>i. path ! i) outletIdx;
          outletId = (case outlet of Some c \<Rightarrow> id_c c | None \<Rightarrow> - 1);
          teeRef = (case outlet of Some c \<Rightarrow> tee_ref_c c | None \<Rightarrow> None);
          dist =
            (case (teeRef, outletIdx) of
               (Some r, Some oi) \<Rightarrow>
                 (case (case findIndex (\<lambda>idx c. type_c c = Some ''tee_main'' \<and> tee_ref_c c = Some r) path of
                          Some ti \<Rightarrow> Some ti
                        | None \<Rightarrow> findIndex (\<lambda>idx c. type_c c = Some ''tee_side'' \<and> tee_ref_c c = Some r) path) of
                    Some teeIdx \<Rightarrow>
                      (if teeIdx < oi then sum_list (map pipeLength (slice teeIdx oi path)) else 0)
                  | None \<Rightarrow> 0)
             | _ \<Rightarrow> 0)
      in \<lparr>path_m = path, outletId_m = outletId, teeRef_m = teeRef, distFromTee_m = dist\<rparr>)"

text \<open>
  A meta object is known by its identity (\<open>indexOf\<close>), which is its position in
  \<open>metas\<close>: the metas are kept as pairs of that position and the record, so that
  equal pairs are the same object.
  \<open>furthest\<close> is the loop that picks \<open>firstMeta\<close>; \<open>takeMeta\<close> is \<open>take\<close>, on the
  pair of \<open>orderedMetas\<close> and \<open>remainingMetas\<close>.
\<close>

fun furthest :: "(nat \<times> PathMeta) \<Rightarrow> (nat \<times> PathMeta) list \<Rightarrow> (nat \<times> PathMeta)" where
  "furthest firstMeta [] = firstMeta"
| "furthest firstMeta (m # rest) =
    furthest (if distFromTee_m (snd m) > distFromTee_m (snd firstMeta) then m else firstMeta) rest"

definition takeMeta ::
  "(nat \<times> PathMeta) option \<Rightarrow> (nat \<times> PathMeta) list \<times> (nat \<times> PathMeta) list
     \<Rightarrow> (nat \<times> PathMeta) list \<times> (nat \<times> PathMeta) list" where
  "takeMeta meta s =
     (case meta of
        None \<Rightarrow> s
      | Some m \<Rightarrow>
          (case s of (orderedMetas, remainingMetas) \<Rightarrow>
             if m \<in> set remainingMetas
             then (orderedMetas @ [m], remove1 m remainingMetas)
             else s))"

text \<open>\<open>sort((a, b) => b.distFromTee - a.distFromTee)\<close>: stable, by decreasing distance.\<close>

definition sortByDist :: "(nat \<times> PathMeta) list \<Rightarrow> (nat \<times> PathMeta) list" where
  "sortByDist ms = sort_key (\<lambda>m. - distFromTee_m (snd m)) ms"

definition orderPaths :: "EquationsComponent list list \<Rightarrow> EquationsComponent list list" where
  "orderPaths dedupedByOutlet =
     (let metas = enumerate 0 (map metaOf dedupedByOutlet);
          withTee = filter (\<lambda>m. teeRef_m (snd m) \<noteq> None \<and> distFromTee_m (snd m) > 0) metas
      in case withTee of
           [] \<Rightarrow> dedupedByOutlet
         | w # ws \<Rightarrow>
             (let firstMeta = furthest w (w # ws);
                  s1 = takeMeta (Some firstMeta) ([], metas);
                  siblingMeta =
                    (case sortByDist (filter (\<lambda>m. teeRef_m (snd m) = teeRef_m (snd firstMeta)) (snd s1)) of
                       [] \<Rightarrow> None
                     | m # _ \<Rightarrow> Some m);
                  s2 = takeMeta siblingMeta s1
              in map (\<lambda>m. path_m (snd m)) (fst s2 @ sortByDist (snd s2))))"

definition splitByOutlet :: "EquationsComponent list \<Rightarrow> EquationsComponent list list" where
  "splitByOutlet components =
     (if length components = 0 then []
      else case findIndex (\<lambda>idx c. type_c c = Some ''discharge'') components of
        None \<Rightarrow> [components]
      | Some dischargeIndex \<Rightarrow>
          (let result = branchLoop components dischargeIndex (teeByRef ''tee_side'' components) []
                          (teeByRef ''tee_main'' components);
               deduped = dedupLoop [] result;
               dedupedByOutlet =
                 (if length deduped = 0 then [fallbackPath components dischargeIndex] else deduped)
           in orderPaths dedupedByOutlet))"

text \<open>A drawing with a discharge and a pipe but no outlet yet.\<close>

definition noOutletDrawn :: "EquationsComponent list" where
  "noOutletDrawn = [mk node 0 ''discharge'', mk edge 1 ''pipe'']"

text \<open>Scenario B after the whole normalization.\<close>

definition scenarioBfilled :: "EquationsComponent list" where
  "scenarioBfilled =
    [(mk node 0 ''discharge'')\<lparr>diameter_c := Some 100, capacity_c := Some 5\<rparr>,
     (mk edge 1 ''pipe'')\<lparr>diameter_c := Some 100, length_c := Some 10, capacity_c := Some 5\<rparr>,
     (mk node 2 ''tee_main'')\<lparr>diameter_c := Some 100, capacity_c := Some 3, tee_ref_c := Some 0\<rparr>,
     (mk edge 3 ''pipe'')\<lparr>diameter_c := Some 100, length_c := Some 4, capacity_c := Some 3\<rparr>,
     (mk node 4 ''outlet'')\<lparr>diameter_c := Some 100, capacity_c := Some 3, tee_ref_c := Some 0\<rparr>,
     (mk node 7 ''tee_side'')\<lparr>fromId_c := Some 4, toId_c := Some 5, diameter_c := Some 100,
        capacity_c := Some 2, tee_ref_c := Some 0\<rparr>,
     (mk node 9 ''elbow45'')\<lparr>fromId_c := Some 7, toId_c := Some 5, diameter_c := Some 100,
        capacity_c := Some 2, tee_ref_c := Some 0\<rparr>,
     (mk edge 5 ''pipe'')\<lparr>diameter_c := Some 100, length_c := Some 6, capacity_c := Some 2\<rparr>,
     (mk node 6 ''outlet'')\<lparr>diameter_c := Some 100, capacity_c := Some 2\<rparr>]"

text \<open>
  Vocabulary of the path invariant. \<open>candidatePaths\<close> is the array \<open>result\<close> after the
  loop over the tees: the branch-derived candidate paths, in the order in which
  they are pushed.
\<close>

definition candidatePaths :: "EquationsComponent list \<Rightarrow> nat \<Rightarrow> EquationsComponent list list" where
  "candidatePaths components dischargeIndex =
     branchLoop components dischargeIndex (teeByRef ''tee_side'' components) []
       (teeByRef ''tee_main'' components)"

text \<open>
  Deduplication by outlet id, keeping the first, as the specification words it:
  the outlet a path ends at is its last outlet, a path without outlet is no
  candidate, a kept path is cut after its last outlet, and of the candidates
  ending at an outlet of the same id only the first is kept.
\<close>

definition endOutlet :: "EquationsComponent list \<Rightarrow> EquationsComponent option" where
  "endOutlet p = find (\<lambda>c. type_c c = Some ''outlet'') (rev p)"

definition endOutletId :: "EquationsComponent list \<Rightarrow> int option" where
  "endOutletId p = map_option id_c (endOutlet p)"

definition trimToOutlet :: "EquationsComponent list \<Rightarrow> EquationsComponent list" where
  "trimToOutlet p = rev (dropWhile (\<lambda>c. type_c c \<noteq> Some ''outlet'') (rev p))"

fun keepFirst :: "EquationsComponent list list \<Rightarrow> EquationsComponent list list" where
  "keepFirst [] = []"
| "keepFirst (p # ps) =
    (case endOutletId p of
       None \<Rightarrow> keepFirst ps
     | Some outletId \<Rightarrow>
         trimToOutlet p # keepFirst (filter (\<lambda>q. endOutletId q \<noteq> Some outletId) ps))"

text \<open>
  The \<open>tee_side\<close> components of the tees whose \<open>tee_main\<close> or \<open>tee_side\<close> is not drawn
  after the discharge: for them the loop over the shared upstream part does not
  run, and the side path begins at the \<open>tee_side\<close>.
\<close>

definition earlyTeeSides :: "EquationsComponent list \<Rightarrow> nat \<Rightarrow> EquationsComponent list" where
  "earlyTeeSides components dischargeIndex =
     concat (map (\<lambda>(ref, mainIdx).
                    case map_of (teeByRef ''tee_side'' components) ref of
                      None \<Rightarrow> []
                    | Some sideIdx \<Rightarrow>
                        if dischargeIndex < mainIdx \<and> dischargeIndex < sideIdx then []
                        else [components ! sideIdx])
               (teeByRef ''tee_main'' components))"

text \<open>
  A path that is not empty, begins at the component \<open>d\<close>, ends at an outlet and
  keeps the draw order of \<open>components\<close>.
\<close>

definition startsAt :: "EquationsComponent \<Rightarrow> EquationsComponent list \<Rightarrow> bool" where
  "startsAt d p = (p \<noteq> [] \<and> hd p = d)"

definition outletPath ::
  "EquationsComponent list \<Rightarrow> EquationsComponent \<Rightarrow> EquationsComponent list \<Rightarrow> bool" where
  "outletPath components d p =
     (startsAt d p \<and> type_c (last p) = Some ''outlet'' \<and> subseq p components)"

subsection \<open>The constructor on a store of objects\<close>

text \<open>
  To say that the caller's objects are left alone, component objects live in a
  store: an object is known by its address, the store lists the objects by
  address, and an array is the list of the addresses of its elements. A spread
  \<open>{ ...c }\<close> or an object literal allocates a new object at the end of the
  store; an assignment to a field updates the store at the object's address.
  Arrays are values here: every array the source changes in place (\<open>splice\<close>,
  \<open>push\<close>, \<open>reverse\<close>, \<open>sort\<close>) is one it has just created, and the caller's array
  \<open>input.components\<close> is only read, by \<open>map\<close>.
\<close>

type_synonym ref = nat

type_synonym store = "EquationsComponent list"

definition alloc :: "EquationsComponent \<Rightarrow> store \<Rightarrow> ref \<times> store" where
  "alloc obj s = (length s, s @ [obj])"

text \<open>\<open>arr.map((c) => ({ ...c }))\<close>\<close>

fun copyAll :: "ref list \<Rightarrow> store \<Rightarrow> ref list \<times> store" where
  "copyAll [] s = ([], s)"
| "copyAll (r # rs) s =
    (case alloc (s ! r) s of (r', s') \<Rightarrow>
       (case copyAll rs s' of (rs', s'') \<Rightarrow> (r' # rs', s'')))"

text \<open>
  The second \<open>map\<close> of the constructor: a pipe is replaced by a copy that carries
  its \<open>vertical\<close> flag, computed against the array \<open>canon\<close> that
  \<open>this.canonicalComponents\<close> still names during the \<open>map\<close>; any other component
  is passed on as it is.
\<close>

fun verticalAll :: "ref list \<Rightarrow> ref list \<Rightarrow> store \<Rightarrow> ref list \<times> store" where
  "verticalAll canon [] s = ([], s)"
| "verticalAll canon (r # rs) s =
    (if component_c (s ! r) = edge \<and> type_c (s ! r) = Some ''pipe'' then
       (case alloc ((s ! r)\<lparr>vertical_c :=
                      Some (computeVerticalFlag (s ! r) (map ((!) s) canon))\<rparr>) s of
          (r', s') \<Rightarrow>
            (case verticalAll canon rs s' of (rs', s'') \<Rightarrow> (r' # rs', s'')))
     else (case verticalAll canon rs s of (rs', s'') \<Rightarrow> (r # rs', s'')))"

text \<open>\<open>fillTee\<close>, step 1: the loop that turns each \<open>tee\<close> into a \<open>tee_main\<close>.\<close>

fun normalizeTees :: "int \<Rightarrow> ref list \<Rightarrow> store \<Rightarrow> store" where
  "normalizeTees nextTeeRef [] s = s"
| "normalizeTees nextTeeRef (r # rs) s =
    (if type_c (s ! r) = Some ''tee'' then
       (case tee_ref_c (s ! r) of
          None \<Rightarrow>
            normalizeTees (nextTeeRef + 1) rs
              (s[r := (s ! r)\<lparr>tee_ref_c := Some nextTeeRef, type_c := Some ''tee_main''\<rparr>])
        | Some t \<Rightarrow>
            normalizeTees (max nextTeeRef (t + 1)) rs
              (s[r := (s ! r)\<lparr>type_c := Some ''tee_main''\<rparr>]))
     else normalizeTees nextTeeRef rs s)"

definition indexesOfType :: "string \<Rightarrow> ref list \<Rightarrow> store \<Rightarrow> nat list" where
  "indexesOfType t arr s = filter (\<lambda>i. type_c (s ! (arr ! i)) = Some t) [0..<length arr]"

text \<open>
  Step 2: the loop over \<open>k < pairCount\<close>, on the two index lists; it stops when
  either list ends.
\<close>

fun pairTees :: "nat list \<Rightarrow> nat list \<Rightarrow> ref list \<Rightarrow> store \<Rightarrow> store" where
  "pairTees (teeIdx # teeIndexes) (outletIdx # outletIndexes) result s =
    (let tee = s ! (result ! teeIdx);
         outlet = s ! (result ! outletIdx)
     in pairTees teeIndexes outletIndexes result
          (if tee_ref_c outlet = None \<and> tee_ref_c tee \<noteq> None
           then s[result ! outletIdx := outlet\<lparr>tee_ref_c := tee_ref_c tee\<rparr>]
           else s))"
| "pairTees teeIndexes outletIndexes result s = s"

definition isPipeVertical :: "ref list \<Rightarrow> store \<Rightarrow> nat \<Rightarrow> bool" where
  "isPipeVertical arr s idx =
     (if idx = 0 \<or> idx + 1 \<ge> length arr then False
      else case (x_c (s ! (arr ! (idx - 1))), x_c (s ! (arr ! (idx + 1)))) of
        (Some px, Some nx) \<Rightarrow> \<bar>px - nx\<bar> \<le> 0.001
      | _ \<Rightarrow> False)"

text \<open>\<open>result.splice(i, 0, r)\<close>\<close>

definition spliceIn :: "nat \<Rightarrow> ref \<Rightarrow> ref list \<Rightarrow> ref list" where
  "spliceIn i r result = take i result @ [r] @ drop i result"

text \<open>Step 3: the loop over \<open>teeIndexes\<close> that inserts an \<open>elbow90\<close> after a tee.\<close>

fun elbowLoop :: "nat list \<Rightarrow> nat \<Rightarrow> ref list \<Rightarrow> store \<Rightarrow> ref list \<times> store" where
  "elbowLoop [] indexOffset result s = (result, s)"
| "elbowLoop (teeIdx # teeIndexes) indexOffset result s =
    (let idx = teeIdx + indexOffset;
         beforePipeIdx = find (\<lambda>i. type_c (s ! (result ! i)) = Some ''pipe'') (rev [0..<idx]);
         afterPipeIdx = find (\<lambda>i. type_c (s ! (result ! i)) = Some ''pipe'')
                          [idx + 1..<length result]
     in case (beforePipeIdx, afterPipeIdx) of
          (Some b, Some a) \<Rightarrow>
            (if isPipeVertical result s b \<noteq> isPipeVertical result s a then
               (let tee = s ! (result ! idx);
                    elbow90 =
                      \<lparr>component_c = node, id_c = int (length result), type_c = Some ''elbow90'',
                       fromId_c = Some (id_c tee),
                       toId_c = (if idx + 1 < length result
                                 then Some (id_c (s ! (result ! (idx + 1)))) else None),
                       x_c = x_c tee, y_c = y_c tee, diameter_c = None, length_c = None,
                       capacity_c = None, tee_ref_c = tee_ref_c tee, draw_index_c = None,
                       vertical_c = None\<rparr>
                in case alloc elbow90 s of
                     (r, s') \<Rightarrow>
                       elbowLoop teeIndexes (indexOffset + 1) (spliceIn (idx + 1) r result) s')
             else elbowLoop teeIndexes indexOffset result s)
        | _ \<Rightarrow> elbowLoop teeIndexes indexOffset result s)"

text \<open>
  Steps 4 and 5: after each outlet with a reference (last outlet first) a
  \<open>tee_side\<close> and an \<open>elbow45\<close> are inserted, unless a matching \<open>tee_side\<close> follows
  already.
\<close>

fun teeSideLoop :: "nat list \<Rightarrow> ref list \<Rightarrow> store \<Rightarrow> ref list \<times> store" where
  "teeSideLoop [] result s = (result, s)"
| "teeSideLoop (outletIndex # outletIndexes) result s =
    (let outlet = s ! (result ! outletIndex);
         nxt = (if outletIndex + 1 < length result
                then Some (s ! (result ! (outletIndex + 1))) else None)
     in if (case nxt of
              Some n \<Rightarrow> type_c n = Some ''tee_side'' \<and> tee_ref_c n = tee_ref_c outlet
            | None \<Rightarrow> False)
        then teeSideLoop outletIndexes result s
        else
          (let teeSide =
                 \<lparr>component_c = node, id_c = int (length result), type_c = Some ''tee_side'',
                  fromId_c = Some (id_c outlet), toId_c = map_option id_c nxt,
                  x_c = x_c outlet, y_c = y_c outlet, diameter_c = None, length_c = None,
                  capacity_c = None, tee_ref_c = tee_ref_c outlet,
                  draw_index_c = draw_index_c outlet, vertical_c = None\<rparr>
           in case alloc teeSide s of
                (rt, s1) \<Rightarrow>
                  (let result1 = spliceIn (outletIndex + 1) rt result;
                       elbow45 =
                         \<lparr>component_c = node, id_c = int (length result1) + 1,
                          type_c = Some ''elbow45'', fromId_c = Some (id_c teeSide),
                          toId_c = toId_c teeSide, x_c = x_c teeSide, y_c = y_c teeSide,
                          diameter_c = None, length_c = None, capacity_c = None,
                          tee_ref_c = tee_ref_c teeSide, draw_index_c = None,
                          vertical_c = None\<rparr>
                   in case alloc elbow45 s1 of
                        (re, s2) \<Rightarrow>
                          teeSideLoop outletIndexes (spliceIn (outletIndex + 2) re result1) s2)))"

definition fillTee :: "ref list \<Rightarrow> store \<Rightarrow> ref list \<times> store" where
  "fillTee components s =
     (case copyAll components s of
        (result, s1) \<Rightarrow>
          (let s2 = normalizeTees 0 result s1;
               teeIndexes = indexesOfType ''tee_main'' result s2;
               outletIndexes = indexesOfType ''outlet'' result s2;
               s3 = pairTees teeIndexes outletIndexes result s2
           in case elbowLoop teeIndexes 0 result s3 of
                (result4, s4) \<Rightarrow>
                  teeSideLoop
                    (rev (filter (\<lambda>i. type_c (s4 ! (result4 ! i)) = Some ''outlet''
                                       \<and> tee_ref_c (s4 ! (result4 ! i)) \<noteq> None)
                            [0..<length result4]))
                    result4 s4))"

text \<open>Allocation of a list of new objects, in order.\<close>

fun allocAll :: "EquationsComponent list \<Rightarrow> store \<Rightarrow> ref list \<times> store" where
  "allocAll [] s = ([], s)"
| "allocAll (obj # objs) s =
    (case alloc obj s of (r, s') \<Rightarrow>
       (case allocAll objs s' of (rs, s'') \<Rightarrow> (r # rs, s'')))"

text \<open>
  \<open>fillCapacity\<close> and \<open>fillDiameter\<close> on the store: each element of the new array
  is a new object \<open>updated = { ...comp }\<close>, which receives its field before anyone
  else can see it. \<open>fillCapacity\<close> creates its objects in reversed order.
\<close>

definition fillCapacity_store :: "ref list \<Rightarrow> store \<Rightarrow> ref list \<times> store" where
  "fillCapacity_store components s =
     (case allocAll (fillCapacity_map 0 Map.empty (rev (map ((!) s) components))) s of
        (resultReversed, s') \<Rightarrow> (rev resultReversed, s'))"

definition fillDiameter_store :: "ref list \<Rightarrow> store \<Rightarrow> ref list \<times> store" where
  "fillDiameter_store components s = allocAll (fillDiameter (map ((!) s) components)) s"

text \<open>
  The constructor: the store it leaves and the rows it computes. From
  \<open>splitByOutlet\<close> on, no statement assigns to a field of a component (reducers
  and rows are new objects), so these stages are the functions above on the
  values read from the store.
\<close>

definition normalized :: "ref list \<Rightarrow> store \<Rightarrow> ref list \<times> store" where
  "normalized components s =
     (case fillTee components s of
        (t, s1) \<Rightarrow>
          (case fillCapacity_store t s1 of
             (c, s2) \<Rightarrow> fillDiameter_store c s2))"

definition constructor :: "ref list \<Rightarrow> store \<Rightarrow> store \<times> EquationRow list list" where
  "constructor inputComponents s =
     (case copyAll inputComponents s of
        (canon0, s1) \<Rightarrow>
          (case verticalAll canon0 canon0 s1 of
             (canonicalComponents, s2) \<Rightarrow>
               (case copyAll canonicalComponents s2 of
                  (a, s3) \<Rightarrow>
                    (case normalized a s3 of
                       (filled, s4) \<Rightarrow>
                         (s4,
                          normalize
                            (preNormalize (map ((!) s4) canonicalComponents) (map ((!) s4) a)
                               (insertReducersForDiameterChanges
                                  (splitByOutlet (map ((!) s4) filled)))))))))"

text \<open>
  Vocabulary of the frame property: the first \<open>n\<close> objects of the store are
  what they were, and every address of an array is at least \<open>n\<close>.
\<close>

definition frame :: "nat \<Rightarrow> store \<Rightarrow> store \<Rightarrow> bool" where
  "frame n s s' = (n \<le> length s' \<and> take n s' = take n s)"

definition fresh :: "nat \<Rightarrow> ref list \<Rightarrow> bool" where
  "fresh n rs = list_all (\<lambda>r. n \<le> r) rs"

text \<open>The drawing of scenario B, and the drawing whose first outlet lies before its tee.\<close>

definition scenarioBdrawn :: store where
  "scenarioBdrawn =
    [mk node 0 ''discharge'',
     (mk edge 1 ''pipe'')\<lparr>diameter_c := Some 100, length_c := Some 10\<rparr>,
     mk node 2 ''tee'',
     (mk edge 3 ''pipe'')\<lparr>diameter_c := Some 100, length_c := Some 4\<rparr>,
     (mk node 4 ''outlet'')\<lparr>capacity_c := Some 3\<rparr>,
     (mk edge 5 ''pipe'')\<lparr>diameter_c := Some 100, length_c := Some 6\<rparr>,
     (mk node 6 ''outlet'')\<lparr>capacity_c := Some 2\<rparr>]"

definition outletBeforeTeeDrawn :: store where
  "outletBeforeTeeDrawn =
    [mk node 0 ''discharge'',
     mk edge 1 ''pipe'',
     (mk node 2 ''outlet'')\<lparr>capacity_c := Some 2\<rparr>,
     mk edge 3 ''pipe'',
     mk node 4 ''tee'',
     mk edge 5 ''pipe'',
     (mk node 6 ''outlet'')\<lparr>capacity_c := Some 3\<rparr>]"

text \<open>The components an array names, read from the store.\<close>

definition readAll :: "ref list \<times> store \<Rightarrow> EquationsComponent list" where
  "readAll p = map ((!) (snd p)) (fst p)"

text \<open>
  The drawing of scenario B with the draw indices 1 to 7 that the drawing
  surface gives its components, and the paths the constructor evaluates on it.
\<close>

definition scenarioBnumbered :: store where
  "scenarioBnumbered =
    [(mk node 0 ''discharge'')\<lparr>draw_index_c := Some 1\<rparr>,
     (mk edge 1 ''pipe'')\<lparr>diameter_c := Some 100, length_c := Some 10, draw_index_c := Some 2\<rparr>,
     (mk node 2 ''tee'')\<lparr>draw_index_c := Some 3\<rparr>,
     (mk edge 3 ''pipe'')\<lparr>diameter_c := Some 100, length_c := Some 4, draw_index_c := Some 4\<rparr>,
     (mk node 4 ''outlet'')\<lparr>capacity_c := Some 3, draw_index_c := Some 5\<rparr>,
     (mk edge 5 ''pipe'')\<lparr>diameter_c := Some 100, length_c := Some 6, draw_index_c := Some 6\<rparr>,
     (mk node 6 ''outlet'')\<lparr>capacity_c := Some 2, draw_index_c := Some 7\<rparr>]"

definition scenarioBnumberedPaths :: "EquationsComponent list list" where
  "scenarioBnumberedPaths =
     insertReducersForDiameterChanges
       (splitByOutlet (readAll (normalized [0, 1, 2, 3, 4, 5, 6] scenarioBnumbered)))"

text \<open>A drawing whose tee is drawn before the discharge.\<close>

definition teeBeforeDischargeDrawn :: store where
  "teeBeforeDischargeDrawn =
    [mk node 0 ''tee'',
     mk edge 1 ''pipe'',
     mk node 2 ''discharge'',
     mk edge 3 ''pipe'',
     (mk node 4 ''outlet'')\<lparr>capacity_c := Some 3\<rparr>,
     mk edge 5 ''pipe'',
     (mk node 6 ''outlet'')\<lparr>capacity_c := Some 2\<rparr>]"

section \<open>Theorems\<close>

subsection \<open>Capacity fill\<close>

lemma fillCapacity_map_length [simp]:
  "length (fillCapacity_map cur sf zs) = length zs"
  by (induction zs arbitrary: cur sf) (simp_all add: Let_def)

lemma fillCapacity_map_type:
  "k < length zs \<Longrightarrow> type_c (fillCapacity_map cur sf zs ! k) = type_c (zs ! k)
     \<and> tee_ref_c (fillCapacity_map cur sf zs ! k) = tee_ref_c (zs ! k)"
proof (induction zs arbitrary: cur sf k)
  case Nil
  then show ?case by simp
next
  case (Cons c rest)
  then show ?case by (cases k) (simp_all add: Let_def)
qed

lemma find_snoc:
  "find P (xs @ [x]) = (case find P xs of Some y \<Rightarrow> Some y | None \<Rightarrow> if P x then Some x else None)"
  by (induction xs) simp_all

text \<open>
  In processing order (downstream first): the component processed right after a
  \<open>tee_main\<close> receives the tee's own flow plus the side flow on record, which is
  the flow of the \<open>tee_side\<close> of that reference processed last, or the entry of
  the initial map.
\<close>

lemma fillCapacity_map_tee_main:
  assumes "Suc k < length zs"
    and "isTeeMain r (zs ! k)"
    and "type_c (zs ! Suc k) \<noteq> Some ''outlet''"
  shows "capacity_c (fillCapacity_map cur sf zs ! Suc k) =
     Some (orZero (capacity_c (fillCapacity_map cur sf zs ! k)) +
       (case find (isTeeSide r) (rev (take k (fillCapacity_map cur sf zs))) of
          Some c \<Rightarrow> orZero (capacity_c c)
        | None \<Rightarrow> orZero (sf r)))"
  using assms
proof (induction zs arbitrary: cur sf k)
  case Nil
  then show ?case by simp
next
  case (Cons c rest)
  show ?case
  proof (cases k)
    case 0
    with Cons.prems obtain c' rest' where rest: "rest = c' # rest'"
      by (cases rest) auto
    from 0 Cons.prems rest have main: "type_c c = Some ''tee_main''" "tee_ref_c c = Some r"
      and notout: "type_c c' \<noteq> Some ''outlet''"
      by (simp_all add: isTeeMain_def)
    show ?thesis
      using 0 main notout unfolding rest
      by (simp add: Let_def orZero_def)
  next
    case (Suc k')
    let ?out = "fillCapacity_map cur sf (c # rest)"
    obtain c2 cur' sf' where out: "?out = c2 # fillCapacity_map cur' sf' rest"
      and ty: "type_c c2 = type_c c" "tee_ref_c c2 = tee_ref_c c"
      and sf': "isTeeSide r c \<Longrightarrow> sf' r = Some cur \<and> capacity_c c2 = Some cur"
               "\<not> isTeeSide r c \<Longrightarrow> sf' r = sf r"
      by (cases "type_c c = Some ''outlet''"; cases "type_c c = Some ''tee_side''";
          cases "type_c c = Some ''tee_main''"; cases "tee_ref_c c")
         (auto simp: Let_def isTeeSide_def)
    from Cons.prems Suc have p: "Suc k' < length rest" "isTeeMain r (rest ! k')"
      "type_c (rest ! Suc k') \<noteq> Some ''outlet''"
      by simp_all
    note IH = Cons.IH [OF p, of cur' sf']
    have c2: "isTeeSide r c2 = isTeeSide r c"
      using ty by (simp add: isTeeSide_def)
    show ?thesis
      unfolding out Suc
      using IH sf' c2
      by (cases "isTeeSide r c") (auto simp: find_snoc orZero_def split: option.splits)
  qed
qed

text \<open>
  C1 (flow conservation), as the code has it. In draw order, let a \<open>tee_main\<close>
  with branch reference \<open>r\<close> stand at position \<open>i + 1\<close> and let the component
  immediately upstream of it (position \<open>i\<close>) be anything but an outlet, for
  instance a pipe. Then the capacity assigned to that upstream component is the
  capacity assigned to the \<open>tee_main\<close> plus the side flow on record for \<open>r\<close>: the
  capacity assigned to the first \<open>tee_side\<close> with reference \<open>r\<close> drawn after the
  \<open>tee_main\<close>, and 0 when no such \<open>tee_side\<close> follows.
\<close>

theorem fillCapacity_flow_conservation:
  assumes "Suc i < length xs"
    and "isTeeMain r (xs ! Suc i)"
    and "type_c (xs ! i) \<noteq> Some ''outlet''"
  shows "capacity_c (fillCapacity xs ! i) =
     Some (orZero (capacity_c (fillCapacity xs ! Suc i)) +
           sideFlowAfter r (drop (Suc (Suc i)) (fillCapacity xs)))"
proof -
  let ?n = "length xs"
  let ?out = "fillCapacity_map 0 Map.empty (rev xs)"
  define k where "k = ?n - Suc (Suc i)"
  have k: "Suc k < ?n" "Suc k = ?n - Suc i" "k = ?n - Suc (Suc i)"
    using assms(1) by (simp_all add: k_def)
  have len: "length ?out = ?n" by simp
  have a: "rev xs ! k = xs ! Suc i" "rev xs ! Suc k = xs ! i"
    using assms(1) k by (simp_all add: rev_nth)
  have b: "fillCapacity xs ! i = ?out ! Suc k" "fillCapacity xs ! Suc i = ?out ! k"
    using assms(1) k len by (simp_all add: fillCapacity_def rev_nth)
  have c: "drop (Suc (Suc i)) (fillCapacity xs) = rev (take k ?out)"
    using k len by (simp add: fillCapacity_def drop_rev)
  have "capacity_c (?out ! Suc k) =
     Some (orZero (capacity_c (?out ! k)) +
       (case find (isTeeSide r) (rev (take k ?out)) of
          Some c \<Rightarrow> orZero (capacity_c c)
        | None \<Rightarrow> orZero (Map.empty r)))"
    by (rule fillCapacity_map_tee_main) (use assms k a in simp_all)
  then show ?thesis
    unfolding b c sideFlowAfter_def by (simp add: orZero_def split: option.splits)
qed

text \<open>
  Scenario B: the pipe upstream of the tee carries 5 = 3 (main) + 2 (side).
\<close>

theorem fillCapacity_flow_conservation_witness:
  "Suc 1 < length scenarioB \<and> isTeeMain 0 (scenarioB ! Suc 1)
   \<and> type_c (scenarioB ! 1) \<noteq> Some ''outlet''
   \<and> capacity_c (fillCapacity scenarioB ! 1) = Some 5
   \<and> capacity_c (fillCapacity scenarioB ! Suc 1) = Some 3
   \<and> sideFlowAfter 0 (drop (Suc (Suc 1)) (fillCapacity scenarioB)) = 2"
proof -
  have h1: "Suc 1 < length scenarioB" by (simp add: scenarioB_def)
  have h2: "isTeeMain 0 (scenarioB ! Suc 1)" by (simp add: scenarioB_def isTeeMain_def mk_def)
  have h3: "type_c (scenarioB ! 1) \<noteq> Some ''outlet''" by (simp add: scenarioB_def mk_def)
  have s: "sideFlowAfter 0 (drop (Suc (Suc 1)) (fillCapacity scenarioB)) = 2"
    by (simp add: scenarioB_def fillCapacity_def mk_def orZero_def sideFlowAfter_def isTeeSide_def)
  have v2: "capacity_c (fillCapacity scenarioB ! Suc 1) = Some 3"
    by (simp add: scenarioB_def fillCapacity_def mk_def orZero_def)
  from fillCapacity_flow_conservation [OF h1 h2 h3] h1 h2 h3 s v2
  show ?thesis by (simp add: orZero_def)
qed

text \<open>
  The property as the specification words it (the \<open>tee_side\<close> of the same reference,
  wherever it stands) fails when that \<open>tee_side\<close> is drawn before the \<open>tee_main\<close>.
  From the drawing discharge, pipe, outlet (2 L/s), pipe, tee, pipe, outlet
  (3 L/s), \<open>fillTee\<close> pairs the tee with the first outlet and puts the \<open>tee_side\<close>
  after that outlet; \<open>fillCapacity\<close> then assigns main 3 and side 3, which is not
  the 3 carried by the pipe upstream of the tee.
\<close>

theorem fillCapacity_flow_conservation_counterexample:
  "isTeeMain 0 (fillCapacity (readAll (fillTee [0, 1, 2, 3, 4, 5, 6] outletBeforeTeeDrawn)) ! 6)
   \<and> isTeeSide 0 (fillCapacity (readAll (fillTee [0, 1, 2, 3, 4, 5, 6] outletBeforeTeeDrawn)) ! 3)
   \<and> type_c (fillCapacity (readAll (fillTee [0, 1, 2, 3, 4, 5, 6] outletBeforeTeeDrawn)) ! 5)
       = Some ''pipe''
   \<and> capacity_c (fillCapacity (readAll (fillTee [0, 1, 2, 3, 4, 5, 6] outletBeforeTeeDrawn)) ! 6)
       = Some 3
   \<and> capacity_c (fillCapacity (readAll (fillTee [0, 1, 2, 3, 4, 5, 6] outletBeforeTeeDrawn)) ! 3)
       = Some 3
   \<and> capacity_c (fillCapacity (readAll (fillTee [0, 1, 2, 3, 4, 5, 6] outletBeforeTeeDrawn)) ! 5)
       = Some 3
   \<and> orZero (capacity_c
         (fillCapacity (readAll (fillTee [0, 1, 2, 3, 4, 5, 6] outletBeforeTeeDrawn)) ! 6))
       + orZero (capacity_c
         (fillCapacity (readAll (fillTee [0, 1, 2, 3, 4, 5, 6] outletBeforeTeeDrawn)) ! 3))
      \<noteq> orZero (capacity_c
         (fillCapacity (readAll (fillTee [0, 1, 2, 3, 4, 5, 6] outletBeforeTeeDrawn)) ! 5))"
  by code_simp

subsection \<open>Diameter fill\<close>

text \<open>
  A second pass over stamped components changes nothing, provided it starts
  from the same running diameter or the first component is a pipe (which sets
  the running diameter itself).
\<close>

lemma fillDiameter_map_idem:
  "xs = [] \<or> type_c (hd xs) = Some ''pipe'' \<or> d = c \<Longrightarrow>
   fillDiameter_map d (fillDiameter_map c xs) = fillDiameter_map c xs"
proof (induction xs arbitrary: c d)
  case Nil
  then show ?case by simp
next
  case (Cons x xs)
  then show ?case by (auto simp: Let_def)
qed

text \<open>
  When the first component is not a pipe, the second component of the output
  carries the starting diameter again.
\<close>

lemma startDiameter_fill:
  "xs \<noteq> [] \<Longrightarrow> type_c (hd xs) \<noteq> Some ''pipe'' \<Longrightarrow>
   startDiameter (fillDiameter_map (startDiameter xs) xs) = startDiameter xs"
proof (cases xs)
  case Nil
  assume "xs \<noteq> []" with Nil show ?thesis by simp
next
  case (Cons c0 rest)
  assume np: "type_c (hd xs) \<noteq> Some ''pipe''"
  show ?thesis
  proof (cases rest)
    case Nil
    with Cons show ?thesis by (simp add: Let_def)
  next
    case (Cons c1 rest')
    with \<open>xs = c0 # rest\<close> np show ?thesis
      by (auto simp: Let_def orZero_def)
  qed
qed

text \<open>
  C9 (idempotence of diameter fill): for every component list, \<open>fillDiameter\<close>
  applied to its own output returns that output, component for component.
\<close>

theorem fillDiameter_idempotent:
  "fillDiameter (fillDiameter xs) = fillDiameter xs"
proof (cases "xs = [] \<or> type_c (hd xs) = Some ''pipe''")
  case True
  then show ?thesis unfolding fillDiameter_def by (intro fillDiameter_map_idem) auto
next
  case False
  then have "startDiameter (fillDiameter_map (startDiameter xs) xs) = startDiameter xs"
    by (intro startDiameter_fill) auto
  then show ?thesis unfolding fillDiameter_def by (intro fillDiameter_map_idem) auto
qed

subsection \<open>Reducer insertion\<close>

text \<open>
  On resolved diameters the two fallbacks of \<open>??\<close> are idle and the loop's
  condition is the property's \<open>diameterChangeAt\<close>.
\<close>

lemma needsReducer_resolved:
  "diameter_c c \<noteq> None \<Longrightarrow> diameter_c n \<noteq> None \<Longrightarrow>
   needsReducer c n =
     (component_c c = node \<and> type_c c \<noteq> Some ''reducer'' \<and> type_c n = Some ''pipe''
      \<and> 0 < the (diameter_c c) \<and> 0 < the (diameter_c n) \<and> the (diameter_c c) \<noteq> the (diameter_c n))"
  by (auto simp: needsReducer_def currD_def nextD_def)

lemma diameterChangeAt_Cons:
  "diameterChangeAt (c # p) (Suc i) = diameterChangeAt p i"
  by (simp add: diameterChangeAt_def)

lemma diameterChangeAt_0:
  "diameter_c c \<noteq> None \<Longrightarrow> diameter_c n \<noteq> None \<Longrightarrow>
   diameterChangeAt (c # n # rest) 0 = needsReducer c n"
  by (auto simp: diameterChangeAt_def needsReducer_resolved)

lemma diameterChangeAt_single: "\<not> diameterChangeAt [c] i"
  by (simp add: diameterChangeAt_def)

lemma diameterChangeAt_bound: "diameterChangeAt p i \<Longrightarrow> Suc i < length p"
  by (simp add: diameterChangeAt_def)

lemma changesBefore_0 [simp]: "changesBefore p 0 = 0"
  by (simp add: changesBefore_def)

lemma changesBefore_Cons:
  "changesBefore (c # p) (Suc i) = (if diameterChangeAt (c # p) 0 then 1 else 0) + changesBefore p i"
proof -
  have "[0..<Suc i] = 0 # map Suc [0..<i]"
    by (simp add: upt_conv_Cons map_Suc_upt del: upt_Suc)
  then show ?thesis
    by (simp add: changesBefore_def filter_map comp_def diameterChangeAt_Cons del: upt_Suc)
qed

lemma insertReducers_path_nth:
  assumes "resolved p" and "i < length p"
  shows "fst (insertReducers_path m p) ! (i + changesBefore p i) = p ! i"
  using assms
proof (induction m p arbitrary: i rule: insertReducers_path.induct)
  case (1 maxId)
  then show ?case by simp
next
  case (2 maxId c)
  then show ?case by simp
next
  case (3 maxId c n rest)
  have res: "diameter_c c \<noteq> None" "diameter_c n \<noteq> None" "resolved (n # rest)"
    using "3.prems"(1) by (simp_all add: resolved_def)
  show ?case
  proof (cases i)
    case 0
    then show ?thesis by (simp add: split_beta Let_def)
  next
    case (Suc j)
    with "3.prems" have j: "j < length (n # rest)" by simp
    show ?thesis
    proof (cases "needsReducer c n")
      case True
      from "3.IH"(1) [OF True res(3) j] True
      show ?thesis
        by (simp add: Suc changesBefore_Cons diameterChangeAt_0 res split_beta)
    next
      case False
      from "3.IH"(2) [OF False res(3) j] False
      show ?thesis
        by (simp add: Suc changesBefore_Cons diameterChangeAt_0 res split_beta)
    qed
  qed
qed

lemma insertReducers_path_reducer:
  assumes "resolved p" and "diameterChangeAt p i"
  shows "\<exists>newId. fst (insertReducers_path m p) ! Suc (i + changesBefore p i)
            = mkReducer newId (p ! i) (p ! Suc i)"
  using assms
proof (induction m p arbitrary: i rule: insertReducers_path.induct)
  case (1 maxId)
  then show ?case by (simp add: diameterChangeAt_def)
next
  case (2 maxId c)
  then show ?case by (simp add: diameterChangeAt_def)
next
  case (3 maxId c n rest)
  have res: "diameter_c c \<noteq> None" "diameter_c n \<noteq> None" "resolved (n # rest)"
    using "3.prems"(1) by (simp_all add: resolved_def)
  show ?case
  proof (cases i)
    case 0
    with "3.prems"(2) have "needsReducer c n"
      by (simp add: diameterChangeAt_0 res)
    then show ?thesis using 0 by (auto simp: split_beta)
  next
    case (Suc j)
    with "3.prems"(2) have j: "diameterChangeAt (n # rest) j"
      by (simp add: diameterChangeAt_Cons)
    show ?thesis
    proof (cases "needsReducer c n")
      case True
      from "3.IH"(1) [OF True res(3) j] True
      show ?thesis
        by (simp add: Suc changesBefore_Cons diameterChangeAt_0 res split_beta)
    next
      case False
      from "3.IH"(2) [OF False res(3) j] False
      show ?thesis
        by (simp add: Suc changesBefore_Cons diameterChangeAt_0 res split_beta)
    qed
  qed
qed

lemma insertReducers_path_length:
  assumes "resolved p"
  shows "length (fst (insertReducers_path m p)) = length p + changesBefore p (length p)"
  using assms
proof (induction m p rule: insertReducers_path.induct)
  case (1 maxId)
  then show ?case by simp
next
  case (2 maxId c)
  then show ?case
    by (simp add: changesBefore_def diameterChangeAt_single)
next
  case (3 maxId c n rest)
  have res: "diameter_c c \<noteq> None" "diameter_c n \<noteq> None" "resolved (n # rest)"
    using "3.prems"(1) by (simp_all add: resolved_def)
  show ?case
  proof (cases "needsReducer c n")
    case True
    from "3.IH"(1) [OF True res(3)] True
    show ?thesis
      using changesBefore_Cons [of c "n # rest" "length (n # rest)"]
      by (simp add: diameterChangeAt_0 res split_beta)
  next
    case False
    from "3.IH"(2) [OF False res(3)] False
    show ?thesis
      using changesBefore_Cons [of c "n # rest" "length (n # rest)"]
      by (simp add: diameterChangeAt_0 res split_beta)
  qed
qed

lemma insertReducers_paths_nth:
  "k < length paths \<Longrightarrow>
   \<exists>m'. insertReducers_paths m paths ! k = fst (insertReducers_path m' (paths ! k))"
proof (induction paths arbitrary: m k)
  case Nil
  then show ?case by simp
next
  case (Cons p ps)
  show ?case
  proof (cases k)
    case 0
    then show ?thesis by (auto simp: split_beta)
  next
    case (Suc j)
    with Cons.prems have "j < length ps" by simp
    from Cons.IH [OF this] Suc show ?thesis by (simp add: split_beta)
  qed
qed

lemma insertReducers_paths_length [simp]:
  "length (insertReducers_paths m paths) = length paths"
  by (induction paths arbitrary: m) (simp_all add: split_beta)

text \<open>
  C4 (reducer insertion exactness). Let \<open>p\<close> be the \<open>k\<close>-th path, with resolved
  diameters, and \<open>q\<close> the \<open>k\<close>-th output path. The component at position \<open>i\<close> of
  \<open>p\<close> stands in \<open>q\<close> at position \<open>i\<close> plus the number of diameter changes before
  \<open>i\<close>; \<open>q\<close> is longer than \<open>p\<close> by the number of diameter changes of \<open>p\<close> and by
  nothing else; and where a non-reducer node at \<open>i\<close> is immediately followed by a
  pipe with both diameters positive and different, the element of \<open>q\<close> right after
  the node is a reducer node whose diameter is the node's and whose capacity is
  the following pipe's (the node's when the pipe has none, else 0). So exactly one
  reducer stands between such a pair and no component is inserted anywhere else.
\<close>

theorem insertReducers_exact:
  assumes "k < length paths" and "resolved (paths ! k)" and "i < length (paths ! k)"
  shows "length (insertReducersForDiameterChanges paths) = length paths
    \<and> insertReducersForDiameterChanges paths ! k ! (i + changesBefore (paths ! k) i) = paths ! k ! i
    \<and> length (insertReducersForDiameterChanges paths ! k)
        = length (paths ! k) + changesBefore (paths ! k) (length (paths ! k))
    \<and> (diameterChangeAt (paths ! k) i \<longrightarrow>
         (let r = insertReducersForDiameterChanges paths ! k ! Suc (i + changesBefore (paths ! k) i)
          in component_c r = node \<and> type_c r = Some ''reducer''
             \<and> diameter_c r = diameter_c (paths ! k ! i)
             \<and> capacity_c r = Some (case capacity_c (paths ! k ! Suc i) of
                                      Some q \<Rightarrow> q
                                    | None \<Rightarrow> orZero (capacity_c (paths ! k ! i)))))"
proof -
  let ?p = "paths ! k"
  from assms(1) have ne: "paths \<noteq> []" by auto
  then have top: "insertReducersForDiameterChanges paths = insertReducers_paths (maxIdOf paths) paths"
    by (simp add: insertReducersForDiameterChanges_def)
  from insertReducers_paths_nth [OF assms(1), of "maxIdOf paths"]
  obtain m' where q: "insertReducersForDiameterChanges paths ! k = fst (insertReducers_path m' ?p)"
    unfolding top by blast
  have a: "length (insertReducersForDiameterChanges paths) = length paths"
    unfolding top by simp
  have b: "fst (insertReducers_path m' ?p) ! (i + changesBefore ?p i) = ?p ! i"
    by (rule insertReducers_path_nth [OF assms(2,3)])
  have c: "length (fst (insertReducers_path m' ?p)) = length ?p + changesBefore ?p (length ?p)"
    by (rule insertReducers_path_length [OF assms(2)])
  have d: "component_c r = node \<and> type_c r = Some ''reducer''
             \<and> diameter_c r = diameter_c (?p ! i)
             \<and> capacity_c r = Some (case capacity_c (?p ! Suc i) of
                                      Some q \<Rightarrow> q
                                    | None \<Rightarrow> orZero (capacity_c (?p ! i)))"
    if ch: "diameterChangeAt ?p i"
      and r: "r = fst (insertReducers_path m' ?p) ! Suc (i + changesBefore ?p i)" for r
  proof -
    from insertReducers_path_reducer [OF assms(2) ch, of m'] r
    obtain newId where r': "r = mkReducer newId (?p ! i) (?p ! Suc i)" by auto
    from ch have "diameter_c (?p ! i) \<noteq> None"
      by (auto simp: diameterChangeAt_def split: option.splits)
    then show ?thesis
      unfolding r' by (auto simp: mkReducer_def currD_def)
  qed
  show ?thesis
    unfolding q [symmetric] using a b c d
    by (simp add: q Let_def)
qed

theorem insertReducers_exact_witness:
  "0 < length [scenarioC] \<and> resolved ([scenarioC] ! 0) \<and> 2 < length ([scenarioC] ! 0)
   \<and> diameterChangeAt ([scenarioC] ! 0) 2
   \<and> changesBefore ([scenarioC] ! 0) 2 = 0
   \<and> changesBefore ([scenarioC] ! 0) (length ([scenarioC] ! 0)) = 1
   \<and> length (insertReducersForDiameterChanges [scenarioC] ! 0) = 6
   \<and> type_c (insertReducersForDiameterChanges [scenarioC] ! 0 ! 2) = Some ''elbow90''
   \<and> type_c (insertReducersForDiameterChanges [scenarioC] ! 0 ! 3) = Some ''reducer''
   \<and> diameter_c (insertReducersForDiameterChanges [scenarioC] ! 0 ! 3) = Some 100
   \<and> capacity_c (insertReducersForDiameterChanges [scenarioC] ! 0 ! 3) = Some 5"
proof -
  have h1: "0 < length [scenarioC]" by simp
  have h2: "resolved ([scenarioC] ! 0)" by (simp add: scenarioC_def resolved_def mk_def)
  have h3: "2 < length ([scenarioC] ! 0)" by (simp add: scenarioC_def)
  have dc: "diameterChangeAt scenarioC j = (j = 2)" for j
    by (auto simp: scenarioC_def diameterChangeAt_def mk_def nth_Cons less_Suc_eq split: nat.splits)
  have h4: "diameterChangeAt ([scenarioC] ! 0) 2" by (simp add: dc)
  have c1: "changesBefore ([scenarioC] ! 0) 2 = 0"
    by (simp add: changesBefore_def dc upt_conv_Cons)
  have len: "length scenarioC = 5" by (simp add: scenarioC_def)
  have c2: "changesBefore ([scenarioC] ! 0) (length ([scenarioC] ! 0)) = 1"
    by (simp add: changesBefore_def dc len upt_conv_Cons)
  have e: "scenarioC ! Suc (Suc 0)
              = (mk node 2 ''elbow90'')\<lparr>diameter_c := Some 100, capacity_c := Some 5\<rparr>"
    "scenarioC ! Suc (Suc (Suc 0))
       = (mk edge 3 ''pipe'')\<lparr>diameter_c := Some 80, capacity_c := Some 5\<rparr>"
    by (simp_all add: scenarioC_def)
  from insertReducers_exact [OF h1 h2 h3] h1 h2 h3 h4 c1 c2
  show ?thesis
    by (simp add: Let_def e mk_def len eval_nat_numeral)
qed

subsection \<open>Row projector and evaluator\<close>

lemma headAreaLoop_length [simp]: "length (headAreaLoop prev rs) = length rs"
  by (induction rs arbitrary: prev) (simp_all add: Let_def)

lemma headArea_length [simp]: "length (headArea rs) = length rs"
  by (simp add: headArea_def split: list.splits)

lemma pressureLoop_length [simp]: "length (pressureLoop prev rs) = length rs"
  by (induction rs arbitrary: prev) (simp_all add: Let_def)

lemma pressure_length [simp]: "length (pressure rs) = length rs"
  by (simp add: pressure_def split: list.splits)

lemma lastDeltaH_length [simp]: "length (lastDeltaH rs) = length rs"
  by (simp add: lastDeltaH_def Let_def)

lemma normalize_path_length [simp]: "length (normalize_path rs) = length rs"
  by (simp add: normalize_path_def)

lemma preNormalize_path_length [simp]:
  "length (preNormalize_path canon inp cs) = length cs"
  by (simp add: preNormalize_path_def)

lemma preNormalize_path_nth:
  "i < length cs \<Longrightarrow> preNormalize_path canon inp cs ! i = preNormalize_row canon inp i (cs ! i)"
  by (simp add: preNormalize_path_def nth_enumerate_eq)

text \<open>What each loop leaves alone.\<close>

lemma headAreaLoop_frame:
  "i < length rs \<Longrightarrow>
   (headAreaLoop prev rs ! i)\<lparr>h_r := x, a_r := y\<rparr> = (rs ! i)\<lparr>h_r := x, a_r := y\<rparr>"
proof (induction rs arbitrary: prev i)
  case Nil
  then show ?case by simp
next
  case (Cons c rest)
  then show ?case by (cases i) (simp_all add: Let_def)
qed

lemma headArea_frame:
  "i < length rs \<Longrightarrow> (headArea rs ! i)\<lparr>h_r := x, a_r := y\<rparr> = (rs ! i)\<lparr>h_r := x, a_r := y\<rparr>"
proof (cases rs)
  case Nil
  assume "i < length rs" with Nil show ?thesis by simp
next
  case (Cons r0 rest)
  assume "i < length rs"
  with Cons show ?thesis
    by (cases i) (simp_all add: headArea_def headAreaLoop_frame)
qed

lemma pressureLoop_frame:
  "i < length rs \<Longrightarrow>
   (pressureLoop prev rs ! i)\<lparr>delta_P_r := x\<rparr> = (rs ! i)\<lparr>delta_P_r := x\<rparr>"
proof (induction rs arbitrary: prev i)
  case Nil
  then show ?case by simp
next
  case (Cons c rest)
  then show ?case by (cases i) (simp_all add: Let_def)
qed

lemma pressure_frame:
  "i < length rs \<Longrightarrow> (pressure rs ! i)\<lparr>delta_P_r := x\<rparr> = (rs ! i)\<lparr>delta_P_r := x\<rparr>"
proof (cases rs)
  case Nil
  assume "i < length rs" with Nil show ?thesis by simp
next
  case (Cons r0 rest)
  assume "i < length rs"
  with Cons show ?thesis
    by (cases i) (simp_all add: pressure_def pressureLoop_frame)
qed

lemma lastDeltaH_frame:
  "i < length rs \<Longrightarrow> (lastDeltaH rs ! i)\<lparr>delta_H_r := x\<rparr> = (rs ! i)\<lparr>delta_H_r := x\<rparr>"
  by (simp add: lastDeltaH_def Let_def nth_list_update)

lemma normalize_path_frame:
  assumes "i < length rs"
  shows "(normalize_path rs ! i)\<lparr>delta_H_r := x, delta_P_r := y\<rparr>
         = (rowLoops (headArea rs ! i))\<lparr>delta_H_r := x, delta_P_r := y\<rparr>"
proof -
  let ?m = "map totalLoss (map teeLoss (map reducerLoss (map dischargeArea
       (map friction (map reynoldsVp (headArea rs))))))"
  have m: "?m ! i = rowLoops (headArea rs ! i)"
    using assms by (simp add: rowLoops_def)
  have swap: "r\<lparr>delta_P_r := y, delta_H_r := x\<rparr> = r\<lparr>delta_H_r := x, delta_P_r := y\<rparr>"
    for r :: EquationRow
    by (cases r) simp
  have p: "(normalize_path rs ! i)\<lparr>delta_P_r := y\<rparr> = (lastDeltaH ?m ! i)\<lparr>delta_P_r := y\<rparr>"
    unfolding normalize_path_def using assms by (intro pressure_frame) simp
  have l: "(lastDeltaH ?m ! i)\<lparr>delta_H_r := x\<rparr> = (?m ! i)\<lparr>delta_H_r := x\<rparr>"
    using assms by (intro lastDeltaH_frame) simp
  have "(normalize_path rs ! i)\<lparr>delta_H_r := x, delta_P_r := y\<rparr>
        = ((normalize_path rs ! i)\<lparr>delta_P_r := y\<rparr>)\<lparr>delta_H_r := x\<rparr>"
    by (simp only: swap)
  also have "\<dots> = ((lastDeltaH ?m ! i)\<lparr>delta_P_r := y\<rparr>)\<lparr>delta_H_r := x\<rparr>"
    by (simp only: p)
  also have "\<dots> = ((lastDeltaH ?m ! i)\<lparr>delta_H_r := x\<rparr>)\<lparr>delta_P_r := y\<rparr>"
    by (simp only: swap)
  also have "\<dots> = ((?m ! i)\<lparr>delta_H_r := x\<rparr>)\<lparr>delta_P_r := y\<rparr>"
    by (simp only: l)
  finally show ?thesis
    by (simp only: m)
qed

lemma reynoldsVp_kept:
  "index_r (reynoldsVp r) = index_r r" "item_r (reynoldsVp r) = item_r r"
  "V_r (reynoldsVp r) = V_r r" "delta_P_r (reynoldsVp r) = delta_P_r r"
  "d_r (reynoldsVp r) = d_r r" "di_r (reynoldsVp r) = di_r r"
  "f_r (reynoldsVp r) = f_r r" "a_r (reynoldsVp r) = a_r r" "ktee_r (reynoldsVp r) = ktee_r r"
  by (simp_all add: reynoldsVp_def)

lemma friction_kept:
  "index_r (friction r) = index_r r" "item_r (friction r) = item_r r"
  "V_r (friction r) = V_r r" "delta_P_r (friction r) = delta_P_r r"
  "d_r (friction r) = d_r r" "di_r (friction r) = di_r r"
  "Re_r (friction r) = Re_r r" "a_r (friction r) = a_r r" "ktee_r (friction r) = ktee_r r"
  by (simp_all add: friction_def Let_def)

lemma dischargeArea_kept:
  "index_r (dischargeArea r) = index_r r" "item_r (dischargeArea r) = item_r r"
  "V_r (dischargeArea r) = V_r r" "delta_P_r (dischargeArea r) = delta_P_r r"
  "d_r (dischargeArea r) = d_r r" "di_r (dischargeArea r) = di_r r"
  "Re_r (dischargeArea r) = Re_r r" "f_r (dischargeArea r) = f_r r"
  "ktee_r (dischargeArea r) = ktee_r r"
  by (simp_all add: dischargeArea_def)

lemma reducerLoss_kept:
  "index_r (reducerLoss r) = index_r r" "item_r (reducerLoss r) = item_r r"
  "V_r (reducerLoss r) = V_r r" "delta_P_r (reducerLoss r) = delta_P_r r"
  "d_r (reducerLoss r) = d_r r" "di_r (reducerLoss r) = di_r r"
  "Re_r (reducerLoss r) = Re_r r" "f_r (reducerLoss r) = f_r r"
  "a_r (reducerLoss r) = a_r r" "ktee_r (reducerLoss r) = ktee_r r"
  by (simp_all add: reducerLoss_def)

lemma teeLoss_kept:
  "index_r (teeLoss r) = index_r r" "item_r (teeLoss r) = item_r r"
  "V_r (teeLoss r) = V_r r" "delta_P_r (teeLoss r) = delta_P_r r"
  "d_r (teeLoss r) = d_r r" "di_r (teeLoss r) = di_r r"
  "Re_r (teeLoss r) = Re_r r" "f_r (teeLoss r) = f_r r"
  "a_r (teeLoss r) = a_r r" "kred_r (teeLoss r) = kred_r r"
  by (simp_all add: teeLoss_def Let_def)

lemma teeLoss_zero_diameter: "d_r r = 0 \<Longrightarrow> teeLoss r = r"
  by (simp add: teeLoss_def)

lemma totalLoss_kept:
  "index_r (totalLoss r) = index_r r" "item_r (totalLoss r) = item_r r"
  "V_r (totalLoss r) = V_r r" "delta_P_r (totalLoss r) = delta_P_r r"
  "d_r (totalLoss r) = d_r r" "di_r (totalLoss r) = di_r r"
  "Re_r (totalLoss r) = Re_r r" "f_r (totalLoss r) = f_r r"
  "kred_r (totalLoss r) = kred_r r" "ktee_r (totalLoss r) = ktee_r r"
  "item_r r \<noteq> ''discharge'' \<Longrightarrow> a_r (totalLoss r) = a_r r"
  by (simp_all add: totalLoss_def Let_def)

lemmas stage_kept = reynoldsVp_kept friction_kept dischargeArea_kept reducerLoss_kept
  teeLoss_kept totalLoss_kept

lemma rowLoops_kept:
  "index_r (rowLoops r) = index_r r" "item_r (rowLoops r) = item_r r"
  "V_r (rowLoops r) = V_r r" "delta_P_r (rowLoops r) = delta_P_r r"
  "d_r (rowLoops r) = d_r r" "di_r (rowLoops r) = di_r r"
  by (simp_all add: rowLoops_def stage_kept)

lemma headArea_kept:
  assumes "i < length rs"
  shows "index_r (headArea rs ! i) = index_r (rs ! i)" "item_r (headArea rs ! i) = item_r (rs ! i)"
    "V_r (headArea rs ! i) = V_r (rs ! i)" "delta_P_r (headArea rs ! i) = delta_P_r (rs ! i)"
    "d_r (headArea rs ! i) = d_r (rs ! i)" "di_r (headArea rs ! i) = di_r (rs ! i)"
    "f_r (headArea rs ! i) = f_r (rs ! i)" "ktee_r (headArea rs ! i) = ktee_r (rs ! i)"
proof -
  note fr = headArea_frame [OF assms, of 0 0]
  show "index_r (headArea rs ! i) = index_r (rs ! i)"
    using arg_cong [OF fr, of index_r] by simp
  show "item_r (headArea rs ! i) = item_r (rs ! i)"
    using arg_cong [OF fr, of item_r] by simp
  show "V_r (headArea rs ! i) = V_r (rs ! i)"
    using arg_cong [OF fr, of V_r] by simp
  show "delta_P_r (headArea rs ! i) = delta_P_r (rs ! i)"
    using arg_cong [OF fr, of delta_P_r] by simp
  show "d_r (headArea rs ! i) = d_r (rs ! i)"
    using arg_cong [OF fr, of d_r] by simp
  show "di_r (headArea rs ! i) = di_r (rs ! i)"
    using arg_cong [OF fr, of di_r] by simp
  show "f_r (headArea rs ! i) = f_r (rs ! i)"
    using arg_cong [OF fr, of f_r] by simp
  show "ktee_r (headArea rs ! i) = ktee_r (rs ! i)"
    using arg_cong [OF fr, of ktee_r] by simp
qed

lemma normalize_path_kept:
  assumes "i < length rs"
  shows "index_r (normalize_path rs ! i) = index_r (rowLoops (headArea rs ! i))"
    "item_r (normalize_path rs ! i) = item_r (rowLoops (headArea rs ! i))"
    "V_r (normalize_path rs ! i) = V_r (rowLoops (headArea rs ! i))"
    "Re_r (normalize_path rs ! i) = Re_r (rowLoops (headArea rs ! i))"
    "f_r (normalize_path rs ! i) = f_r (rowLoops (headArea rs ! i))"
    "a_r (normalize_path rs ! i) = a_r (rowLoops (headArea rs ! i))"
    "kred_r (normalize_path rs ! i) = kred_r (rowLoops (headArea rs ! i))"
    "ktee_r (normalize_path rs ! i) = ktee_r (rowLoops (headArea rs ! i))"
proof -
  note fr = normalize_path_frame [OF assms, of "Finite 0" "Finite 0"]
  show "index_r (normalize_path rs ! i) = index_r (rowLoops (headArea rs ! i))"
    using arg_cong [OF fr, of index_r] by simp
  show "item_r (normalize_path rs ! i) = item_r (rowLoops (headArea rs ! i))"
    using arg_cong [OF fr, of item_r] by simp
  show "V_r (normalize_path rs ! i) = V_r (rowLoops (headArea rs ! i))"
    using arg_cong [OF fr, of V_r] by simp
  show "Re_r (normalize_path rs ! i) = Re_r (rowLoops (headArea rs ! i))"
    using arg_cong [OF fr, of Re_r] by simp
  show "f_r (normalize_path rs ! i) = f_r (rowLoops (headArea rs ! i))"
    using arg_cong [OF fr, of f_r] by simp
  show "a_r (normalize_path rs ! i) = a_r (rowLoops (headArea rs ! i))"
    using arg_cong [OF fr, of a_r] by simp
  show "kred_r (normalize_path rs ! i) = kred_r (rowLoops (headArea rs ! i))"
    using arg_cong [OF fr, of kred_r] by simp
  show "ktee_r (normalize_path rs ! i) = ktee_r (rowLoops (headArea rs ! i))"
    using arg_cong [OF fr, of ktee_r] by simp
qed



lemma preNormalize_nth:
  "j < length paths \<Longrightarrow>
   normalize (preNormalize canon inp paths) ! j
     = normalize_path (preNormalize_path canon inp (paths ! j))"
  by (simp add: normalize_def preNormalize_def)

lemma normalize_path_index:
  assumes "i < length cs"
  shows "index_r (normalize_path (preNormalize_path canon inp cs) ! i) =
    (case draw_index_c (cs ! i) of Some k \<Rightarrow> k | None \<Rightarrow> int i + 1)"
proof -
  let ?rows = "preNormalize_path canon inp cs"
  have i: "i < length ?rows" using assms by simp
  have "index_r (normalize_path ?rows ! i) = index_r (?rows ! i)"
    by (simp add: normalize_path_kept(1) [OF i] rowLoops_kept headArea_kept(1) [OF i])
  also have "\<dots> = (case draw_index_c (cs ! i) of Some k \<Rightarrow> k | None \<Rightarrow> int i + 1)"
    using assms by (simp add: preNormalize_path_nth preNormalize_row_def Let_def)
  finally show ?thesis .
qed

text \<open>
  C7 (row index stability), as the code has it. For every component of every
  output path, the row's \<open>index\<close> is the component's draw index when it carries
  one, whatever its position in the path, so that a drawn component shared by
  several outlet paths has the same \<open>index\<close> in each of them; for a component
  that carries none (a synthetic \<open>elbow90\<close>, \<open>elbow45\<close> or reducer) it is the
  component's position in the path plus one.
\<close>

theorem row_index_draw_index_or_position:
  assumes "j < length paths" and "i < length (paths ! j)"
  shows "index_r (normalize (preNormalize canon inp paths) ! j ! i) =
    (case draw_index_c (paths ! j ! i) of Some k \<Rightarrow> k | None \<Rightarrow> int i + 1)"
  using normalize_path_index [OF assms(2)]
  by (simp add: preNormalize_nth [OF assms(1)])

lemma headAreaLoop_a_zero:
  "i < length rs \<Longrightarrow> di_r (rs ! i) = 0 \<Longrightarrow> a_r prev = 0 \<or> 1 < length rs \<Longrightarrow>
   a_r (headAreaLoop prev rs ! i) = 0"
proof (induction rs arbitrary: prev i)
  case Nil
  then show ?case by simp
next
  case (Cons c rest)
  show ?case
  proof (cases i)
    case 0
    with Cons.prems show ?thesis
      by (cases rest) (simp_all add: Let_def)
  next
    case (Suc i')
    with Cons.prems obtain n rest' where rest: "rest = n # rest'"
      by (cases rest) auto
    let ?c' = "c\<lparr>h_r := h_r c + (h_r prev + L_r prev * (if vertical_r prev then 1 else 0)),
                a_r := (case rest of
                          [] \<Rightarrow> a_r prev
                        | nxt # _ \<Rightarrow> if di_r nxt = 0 then 0 else (di_r c / di_r nxt)\<^sup>2)\<rparr>"
    have "a_r ?c' = 0 \<or> 1 < length rest"
    proof (cases rest')
      case Nil
      with Cons.prems Suc rest have "i' = 0" "di_r n = 0" by simp_all
      then show ?thesis by (simp add: rest)
    next
      case (Cons a list)
      then show ?thesis by (simp add: rest)
    qed
    from Cons.IH [OF _ _ this, of i'] Cons.prems Suc
    show ?thesis by (simp add: Let_def)
  qed
qed

lemma headArea_a_zero:
  assumes "i < length rs" and "di_r (rs ! i) = 0" and "a_r (rs ! 0) = 0"
  shows "a_r (headArea rs ! i) = 0"
proof (cases rs)
  case Nil
  with assms(1) show ?thesis by simp
next
  case (Cons r0 rest)
  show ?thesis
  proof (cases i)
    case 0
    with Cons assms(3) show ?thesis by (simp add: headArea_def)
  next
    case (Suc i')
    with Cons assms have "a_r (headAreaLoop r0 rest ! i') = 0"
      by (intro headAreaLoop_a_zero) simp_all
    with Cons Suc show ?thesis by (simp add: headArea_def)
  qed
qed

lemma rowLoops_zero_diameter:
  assumes "d_r r = 0" "di_r r = 0" "V_r r = 0" "f_r r = Finite 0" "ktee_r r = Finite 0"
    "a_r r = 0"
  shows "V_r (rowLoops r) = 0 \<and> Re_r (rowLoops r) = 0 \<and> f_r (rowLoops r) = Finite 0
    \<and> ktee_r (rowLoops r) = Finite 0
    \<and> kred_r (rowLoops r) = (if item_r r = ''discharge'' then 0 else 0.51)"
proof -
  define r3 where "r3 = dischargeArea (friction (reynoldsVp r))"
  have re: "Re_r (reynoldsVp r) = 0"
    using assms(2) by (simp add: reynoldsVp_def)
  have f: "f_r (friction (reynoldsVp r)) = Finite 0"
    using assms(1,4) by (simp add: friction_def stage_kept)
  have a3: "a_r r3 = (if item_r r = ''discharge'' then 1 else 0)"
    using assms(6) by (simp add: r3_def dischargeArea_def stage_kept)
  have k4: "kred_r (reducerLoss r3) = (if item_r r = ''discharge'' then 0 else 0.51)"
    using a3 by (simp add: reducerLoss_def)
  have d4: "d_r (reducerLoss r3) = 0"
    using assms(1) by (simp add: r3_def stage_kept)
  have t: "teeLoss (reducerLoss r3) = reducerLoss r3"
    by (rule teeLoss_zero_diameter [OF d4])
  have rl: "rowLoops r = totalLoss (reducerLoss r3)"
    by (simp add: rowLoops_def r3_def [symmetric] t)
  show ?thesis
    unfolding rl using k4 assms(3,5) re f
    by (simp add: stage_kept r3_def)
qed

text \<open>
  C2 (zero-diameter safety), as the code has it. For every component whose
  resolved diameter is 0, the row's \<open>V\<close>, \<open>Re\<close>, \<open>f\<close> and \<open>ktee\<close> are exactly 0
  (the finite number 0, so neither NaN nor infinite). Its
  \<open>kred\<close> is 0 only when the component is a discharge: the area ratio of any
  other zero-diameter row is 0, which the reducer formula maps to 0.51.
\<close>

theorem zero_diameter_fields:
  assumes "j < length paths" and "i < length (paths ! j)"
    and "orZero (diameter_c (paths ! j ! i)) = 0"
  shows "V_r (normalize (preNormalize canon inp paths) ! j ! i) = 0
    \<and> Re_r (normalize (preNormalize canon inp paths) ! j ! i) = 0
    \<and> f_r (normalize (preNormalize canon inp paths) ! j ! i) = Finite 0
    \<and> ktee_r (normalize (preNormalize canon inp paths) ! j ! i) = Finite 0
    \<and> kred_r (normalize (preNormalize canon inp paths) ! j ! i)
        = (if type_c (paths ! j ! i) = Some ''discharge'' then 0 else 0.51)"
proof -
  let ?rows = "preNormalize_path canon inp (paths ! j)"
  let ?r = "headArea ?rows ! i"
  have i: "i < length ?rows" using assms(2) by simp
  have row: "?rows ! i = preNormalize_row canon inp i (paths ! j ! i)"
    using assms(2) by (rule preNormalize_path_nth)
  have row0: "?rows ! 0 = preNormalize_row canon inp 0 (paths ! j ! 0)"
    using assms(2) by (intro preNormalize_path_nth) auto
  have z: "d_r (?rows ! i) = 0" "di_r (?rows ! i) = 0" "V_r (?rows ! i) = 0"
    "f_r (?rows ! i) = Finite 0" "ktee_r (?rows ! i) = Finite 0"
    using assms(3) by (simp_all add: row preNormalize_row_def Let_def getDi_def getVelocity_def)
  have a0: "a_r (?rows ! 0) = 0"
    by (simp add: row0 preNormalize_row_def Let_def)
  have item: "(item_r ?r = ''discharge'') = (type_c (paths ! j ! i) = Some ''discharge'')"
    by (simp add: headArea_kept [OF i] row preNormalize_row_def Let_def split: option.splits)
  have "V_r (rowLoops ?r) = 0 \<and> Re_r (rowLoops ?r) = 0 \<and> f_r (rowLoops ?r) = Finite 0
    \<and> ktee_r (rowLoops ?r) = Finite 0
    \<and> kred_r (rowLoops ?r) = (if item_r ?r = ''discharge'' then 0 else 0.51)"
    by (rule rowLoops_zero_diameter)
       (simp_all add: headArea_kept [OF i] z headArea_a_zero [OF i z(2) a0])
  then show ?thesis
    by (simp add: preNormalize_nth [OF assms(1)] normalize_path_kept [OF i] item)
qed

text \<open>
  C10 (first-element loss default). In every evaluated path whose first element
  is not a discharge, the first row's area ratio \<open>a\<close> is 0 and its \<open>kred\<close> is 0.51,
  whatever the diameters in the path.
\<close>

theorem first_row_loss_default:
  assumes "j < length paths" and "paths ! j \<noteq> []"
    and "type_c (paths ! j ! 0) \<noteq> Some ''discharge''"
  shows "a_r (normalize (preNormalize canon inp paths) ! j ! 0) = 0
    \<and> kred_r (normalize (preNormalize canon inp paths) ! j ! 0) = 0.51"
proof -
  let ?rows = "preNormalize_path canon inp (paths ! j)"
  have i: "0 < length ?rows" using assms(2) by simp
  have row0: "?rows ! 0 = preNormalize_row canon inp 0 (paths ! j ! 0)"
    using assms(2) by (intro preNormalize_path_nth) simp
  obtain r0 rest where rows: "?rows = r0 # rest"
    using i by (cases ?rows) auto
  have h: "headArea ?rows ! 0 = ?rows ! 0"
    by (simp add: rows headArea_def)
  have it: "item_r (?rows ! 0) \<noteq> ''discharge''" and a: "a_r (?rows ! 0) = 0"
    using assms(3) by (auto simp: row0 preNormalize_row_def Let_def split: option.splits)
  have a3: "a_r (dischargeArea (friction (reynoldsVp (?rows ! 0)))) = 0"
    using it a by (simp add: dischargeArea_def stage_kept)
  then have k: "kred_r (reducerLoss (dischargeArea (friction (reynoldsVp (?rows ! 0))))) = 0.51"
    by (simp add: reducerLoss_def)
  have "a_r (rowLoops (?rows ! 0)) = 0 \<and> kred_r (rowLoops (?rows ! 0)) = 0.51"
    using it a3 k by (simp add: rowLoops_def stage_kept)
  then show ?thesis
    by (simp add: preNormalize_nth [OF assms(1)] normalize_path_kept [OF i] h)
qed








lemmas evaluator_defs = normalize_def preNormalize_def normalize_path_def preNormalize_path_def
  preNormalize_row_def headArea_def reynoldsVp_def friction_def dischargeArea_def reducerLoss_def
  teeLoss_def totalLoss_def lastDeltaH_def pressure_def mk_def orZero_def getDi_def getVelocity_def
  countElbow_def getT90_def getQ90_def getD90_def isVertical_def computeVerticalFlag_def
  startsWithTee_def lookupComponents_def enumerate_eq_zip upt_conv_Cons Let_def
  numSub_def realDiv_def signedInfinity_def

theorem row_index_draw_index_or_position_witness:
  "0 < length [scenarioA] \<and> 1 < length ([scenarioA] ! 0)
   \<and> draw_index_c ([scenarioA] ! 0 ! 1) = Some 2
   \<and> index_r (normalize (preNormalize scenarioA scenarioA [scenarioA]) ! 0 ! 1) = 2"
proof -
  have h1: "0 < length [scenarioA]" by simp
  have h2: "1 < length ([scenarioA] ! 0)" by (simp add: scenarioA_def)
  have h3: "draw_index_c ([scenarioA] ! 0 ! 1) = Some 2" by (simp add: scenarioA_def mk_def)
  from row_index_draw_index_or_position [OF h1 h2, of scenarioA scenarioA] h1 h2 h3
  show ?thesis by simp
qed

lemma scenarioBnumbered_paths:
  "map (map (\<lambda>c. (type_c c, draw_index_c c))) scenarioBnumberedPaths
   = [[(Some ''discharge'', Some 1), (Some ''pipe'', Some 2), (Some ''tee_main'', Some 3),
       (Some ''pipe'', Some 4), (Some ''outlet'', Some 5)],
      [(Some ''discharge'', Some 1), (Some ''pipe'', Some 2), (Some ''tee_side'', Some 5),
       (Some ''elbow45'', None), (Some ''pipe'', Some 6), (Some ''outlet'', Some 7)]]"
  by code_simp

text \<open>
  On the numbered drawing of scenario B the fourth component of the side path
  is the synthetic \<open>elbow45\<close>. It carries no draw index and its row gets the
  index 4, its position plus one: the draw index, and the row index, of the
  pipe between the tee and the first outlet in the main path.
\<close>

theorem row_index_synthetic_counterexample:
  "type_c (scenarioBnumberedPaths ! 1 ! 3) = Some ''elbow45''
   \<and> draw_index_c (scenarioBnumberedPaths ! 1 ! 3) = None
   \<and> index_r (normalize (preNormalize scenarioBnumbered scenarioBnumbered
                  scenarioBnumberedPaths) ! 1 ! 3) = 4
   \<and> type_c (scenarioBnumberedPaths ! 0 ! 3) = Some ''pipe''
   \<and> draw_index_c (scenarioBnumberedPaths ! 0 ! 3) = Some 4
   \<and> index_r (normalize (preNormalize scenarioBnumbered scenarioBnumbered
                  scenarioBnumberedPaths) ! 0 ! 3) = 4"
proof -
  let ?g = "\<lambda>c. (type_c c, draw_index_c c)"
  note P = scenarioBnumbered_paths
  have l: "length scenarioBnumberedPaths = 2"
    using arg_cong [OF P, of length] by simp
  then have j0: "0 < length scenarioBnumberedPaths" and j1: "1 < length scenarioBnumberedPaths"
    by simp_all
  have p0: "map ?g (scenarioBnumberedPaths ! 0)
      = [(Some ''discharge'', Some 1), (Some ''pipe'', Some 2), (Some ''tee_main'', Some 3),
         (Some ''pipe'', Some 4), (Some ''outlet'', Some 5)]"
    using arg_cong [OF P, of "\<lambda>xs. xs ! 0"] j0 by simp
  have p1: "map ?g (scenarioBnumberedPaths ! 1)
      = [(Some ''discharge'', Some 1), (Some ''pipe'', Some 2), (Some ''tee_side'', Some 5),
         (Some ''elbow45'', None), (Some ''pipe'', Some 6), (Some ''outlet'', Some 7)]"
    using arg_cong [OF P, of "\<lambda>xs. xs ! 1"] j1 by simp
  have i0: "3 < length (scenarioBnumberedPaths ! 0)"
    using arg_cong [OF p0, of length] by simp
  have i1: "3 < length (scenarioBnumberedPaths ! 1)"
    using arg_cong [OF p1, of length] by simp
  have c0: "?g (scenarioBnumberedPaths ! 0 ! 3) = (Some ''pipe'', Some 4)"
    using arg_cong [OF p0, of "\<lambda>xs. xs ! 3"] i0 by simp
  have c1: "?g (scenarioBnumberedPaths ! 1 ! 3) = (Some ''elbow45'', None)"
    using arg_cong [OF p1, of "\<lambda>xs. xs ! 3"] i1 by simp
  have r0: "index_r (normalize (preNormalize scenarioBnumbered scenarioBnumbered
                  scenarioBnumberedPaths) ! 0 ! 3) = 4"
    unfolding preNormalize_nth [OF j0]
    using normalize_path_index [OF i0, of scenarioBnumbered scenarioBnumbered] c0 by simp
  have r1: "index_r (normalize (preNormalize scenarioBnumbered scenarioBnumbered
                  scenarioBnumberedPaths) ! 1 ! 3) = 4"
    unfolding preNormalize_nth [OF j1]
    using normalize_path_index [OF i1, of scenarioBnumbered scenarioBnumbered] c1 by simp
  from c0 c1 r0 r1 show ?thesis by simp
qed

theorem zero_diameter_fields_witness:
  "0 < length [noDiameterPath] \<and> 1 < length ([noDiameterPath] ! 0)
   \<and> orZero (diameter_c ([noDiameterPath] ! 0 ! 1)) = 0
   \<and> type_c ([noDiameterPath] ! 0 ! 1) = Some ''pipe''
   \<and> V_r (normalize (preNormalize noDiameterDrawn noDiameterDrawn [noDiameterPath]) ! 0 ! 1) = 0
   \<and> Re_r (normalize (preNormalize noDiameterDrawn noDiameterDrawn [noDiameterPath]) ! 0 ! 1) = 0
   \<and> f_r (normalize (preNormalize noDiameterDrawn noDiameterDrawn [noDiameterPath]) ! 0 ! 1)
       = Finite 0
   \<and> ktee_r (normalize (preNormalize noDiameterDrawn noDiameterDrawn [noDiameterPath]) ! 0 ! 1)
       = Finite 0
   \<and> kred_r (normalize (preNormalize noDiameterDrawn noDiameterDrawn [noDiameterPath]) ! 0 ! 1)
       = 0.51"
proof -
  have h1: "0 < length [noDiameterPath]" by simp
  have h2: "1 < length ([noDiameterPath] ! 0)" by (simp add: noDiameterPath_def)
  have h3: "orZero (diameter_c ([noDiameterPath] ! 0 ! 1)) = 0"
    by (simp add: noDiameterPath_def mk_def orZero_def)
  have h4: "type_c ([noDiameterPath] ! 0 ! 1) = Some ''pipe''"
    by (simp add: noDiameterPath_def mk_def)
  from zero_diameter_fields [OF h1 h2 h3, of noDiameterDrawn noDiameterDrawn] h1 h2 h3 h4
  show ?thesis by simp
qed

text \<open>
  The pipe of a drawing without diameters has resolved diameter 0 and \<open>kred\<close> 0.51,
  not 0.
\<close>

theorem zero_diameter_kred_counterexample:
  "orZero (diameter_c (noDiameterPath ! 1)) = 0
   \<and> kred_r (normalize (preNormalize noDiameterDrawn noDiameterDrawn [noDiameterPath]) ! 0 ! 1)
       = 0.51
   \<and> kred_r (normalize (preNormalize noDiameterDrawn noDiameterDrawn [noDiameterPath]) ! 0 ! 1)
       \<noteq> 0"
  by (simp add: noDiameterPath_def noDiameterDrawn_def evaluator_defs)

theorem first_row_loss_default_witness:
  "0 < length [noDischargePath] \<and> [noDischargePath] ! 0 \<noteq> []
   \<and> type_c ([noDischargePath] ! 0 ! 0) \<noteq> Some ''discharge''
   \<and> a_r (normalize (preNormalize noDischargePath noDischargePath [noDischargePath]) ! 0 ! 0) = 0
   \<and> kred_r (normalize (preNormalize noDischargePath noDischargePath [noDischargePath]) ! 0 ! 0)
       = 0.51"
proof -
  have h1: "0 < length [noDischargePath]" by simp
  have h2: "[noDischargePath] ! 0 \<noteq> []" by (simp add: noDischargePath_def)
  have h3: "type_c ([noDischargePath] ! 0 ! 0) \<noteq> Some ''discharge''"
    by (simp add: noDischargePath_def mk_def)
  from first_row_loss_default [OF h1 h2 h3, of noDischargePath noDischargePath] h1 h2 h3
  show ?thesis by blast
qed



subsection \<open>Path decomposition\<close>

lemma findIndex_Some:
  "findIndex p xs = Some i \<Longrightarrow> i < length xs \<and> p i (xs ! i)"
  by (auto simp: findIndex_def find_Some_iff nth_enumerate_eq)

lemma findIndex_None:
  "findIndex p xs = None \<longleftrightarrow> (\<forall>i<length xs. \<not> p i (xs ! i))"
  by (auto simp: findIndex_def find_None_iff in_set_conv_nth nth_enumerate_eq)

text \<open>
  C5 (missing-discharge fallback), as the code has it. For every component list
  that is not empty and contains no discharge, \<open>splitByOutlet\<close> returns exactly
  one path, the whole list in order. (The function is total: no branch of it
  throws.)
\<close>

theorem splitByOutlet_no_discharge:
  assumes "components \<noteq> []"
    and "list_all (\<lambda>c. type_c c \<noteq> Some ''discharge'') components"
  shows "splitByOutlet components = [components]"
proof -
  have "findIndex (\<lambda>idx c. type_c c = Some ''discharge'') components = None"
    using assms(2) by (simp add: findIndex_None list_all_length)
  with assms(1) show ?thesis
    by (simp add: splitByOutlet_def)
qed

theorem splitByOutlet_no_discharge_witness:
  "noDischargePath \<noteq> [] \<and> list_all (\<lambda>c. type_c c \<noteq> Some ''discharge'') noDischargePath
   \<and> splitByOutlet noDischargePath = [noDischargePath]"
proof -
  have h1: "noDischargePath \<noteq> []" by (simp add: noDischargePath_def)
  have h2: "list_all (\<lambda>c. type_c c \<noteq> Some ''discharge'') noDischargePath"
    by (simp add: noDischargePath_def mk_def)
  from splitByOutlet_no_discharge [OF h1 h2] h1 h2 show ?thesis by blast
qed

text \<open>
  The empty list contains no discharge either, and for it the first guard of
  \<open>splitByOutlet\<close> returns no path at all.
\<close>

theorem splitByOutlet_empty_counterexample:
  "list_all (\<lambda>c. type_c c \<noteq> Some ''discharge'') []
   \<and> splitByOutlet [] = [] \<and> splitByOutlet [] \<noteq> [[]] \<and> length (splitByOutlet []) \<noteq> 1"
  by (simp add: splitByOutlet_def)

lemma subseq_take_self: "subseq (take n xs) xs"
  using subseq_rev_drop_many [of "take n xs" "take n xs" "drop n xs"] by simp

lemma subseq_drop_self: "subseq (drop n xs) xs"
  using subseq_drop_many [of "drop n xs" "drop n xs" "take n xs"] by simp

lemma subseq_slice: "subseq (slice a b xs) xs"
  unfolding slice_def
  using subseq_order.trans [OF subseq_drop_self subseq_take_self] .

lemma slice_startsAt:
  "a < b \<Longrightarrow> a < length xs \<Longrightarrow> startsAt (xs ! a) (slice a b xs)"
  by (simp add: startsAt_def slice_def hd_drop_conv_nth)

lemma sideTail_prefix: "prefix (sideTail start xs) xs"
  by (induction xs arbitrary: start) auto

lemma subseq_sideTail: "subseq (sideTail start xs) xs"
  using sideTail_prefix by (rule prefix_imp_subseq)

lemma sidePath_subseq: "subseq (sidePath cs dI m s) cs"
proof -
  let ?b = "min m s"
  have "subseq (slice dI ?b cs) (take ?b cs)"
    unfolding slice_def by (rule subseq_drop_self)
  also have "take ?b cs = take ?b (take s cs)" by (simp add: min.absorb1)
  also have "subseq \<dots> (take s cs)" by (rule subseq_take_self)
  finally have 1: "subseq (filter (\<lambda>c. \<not> isTeeType c) (slice dI ?b cs)) (take s cs)"
    using subseq_order.trans [OF subseq_filter_left] by blast
  have 2: "subseq (sideTail True (drop s cs)) (drop s cs)"
    by (rule subseq_sideTail)
  from list_emb_append_mono [OF 1 2] show ?thesis
    by (simp add: sidePath_def)
qed

lemma sidePath_startsAt:
  assumes "dI < length cs" "\<not> isTeeType (cs ! dI)" "dI < m" "dI < s"
  shows "startsAt (cs ! dI) (sidePath cs dI m s)"
proof -
  from assms have "startsAt (cs ! dI) (slice dI (min m s) cs)"
    by (intro slice_startsAt) simp_all
  then obtain rest where "slice dI (min m s) cs = cs ! dI # rest"
    by (cases "slice dI (min m s) cs") (auto simp: startsAt_def)
  with assms(2) show ?thesis
    by (simp add: sidePath_def startsAt_def)
qed

lemma lastOutletScan_Some:
  "lastOutletScan n path acc = Some i \<Longrightarrow>
   acc = Some i \<or> (n \<le> i \<and> i - n < length path \<and> type_c (path ! (i - n)) = Some ''outlet'')"
proof (induction path arbitrary: n acc)
  case Nil
  then show ?case by simp
next
  case (Cons c path)
  from Cons.prems have "lastOutletScan (Suc n) path
      (if type_c c = Some ''outlet'' then Some n else acc) = Some i"
    by simp
  from Cons.IH [OF this] show ?case
  proof
    assume "(if type_c c = Some ''outlet'' then Some n else acc) = Some i"
    then show ?thesis by (auto split: if_splits)
  next
    assume a: "Suc n \<le> i \<and> i - Suc n < length path \<and> type_c (path ! (i - Suc n)) = Some ''outlet''"
    then have "i - n = Suc (i - Suc n)" by arith
    with a show ?thesis by simp
  qed
qed

lemma take_Suc_last: "i < length xs \<Longrightarrow> last (take (Suc i) xs) = xs ! i"
  by (simp add: take_Suc_conv_app_nth)

lemma sorted_le_last:
  fixes xs :: "nat list"
  shows "sorted xs \<Longrightarrow> x \<in> set xs \<Longrightarrow> x \<le> last xs"
proof (induction xs)
  case Nil
  then show ?case by simp
next
  case (Cons a xs)
  show ?case
  proof (cases "xs = []")
    case True
    with Cons.prems show ?thesis by simp
  next
    case False
    then have l: "last xs \<in> set xs" by (rule last_in_set)
    from Cons.prems consider "x = a" | "x \<in> set xs" by auto
    then show ?thesis
    proof cases
      case 1
      with Cons.prems(1) l False show ?thesis by auto
    next
      case 2
      with Cons.IH Cons.prems(1) False show ?thesis by simp
    qed
  qed
qed

lemma fallbackPath_ok:
  assumes "dI < length cs" "k < length cs" "dI \<le> k" "type_c (cs ! k) = Some ''outlet''"
  shows "outletPath cs (cs ! dI) (fallbackPath cs dI)"
proof -
  let ?idxs = "map fst (filter (\<lambda>(idx, c). type_c c = Some ''outlet'') (enumerate 0 cs))"
  have mem: "i \<in> set ?idxs \<longleftrightarrow> i < length cs \<and> type_c (cs ! i) = Some ''outlet''" for i
  proof
    assume "i \<in> set ?idxs"
    then show "i < length cs \<and> type_c (cs ! i) = Some ''outlet''"
      by (auto simp: in_set_enumerate_eq)
  next
    assume a: "i < length cs \<and> type_c (cs ! i) = Some ''outlet''"
    then have "(i, cs ! i) \<in> set (filter (\<lambda>(idx, c). type_c c = Some ''outlet'') (enumerate 0 cs))"
      by (simp add: in_set_enumerate_eq)
    then have "fst (i, cs ! i) \<in> set ?idxs"
      unfolding set_map by (rule imageI)
    then show "i \<in> set ?idxs" by simp
  qed
  have "sorted (map fst (enumerate 0 cs))" by simp
  then have srt: "sorted ?idxs" by (rule sorted_filter)
  from assms(2,4) have kin: "k \<in> set ?idxs" using mem [of k] by blast
  have ne: "?idxs \<noteq> []"
  proof
    assume "?idxs = []"
    with kin have "k \<in> set []" by (simp only:)
    then show False by simp
  qed
  define l where "l = last ?idxs"
  from ne have "l \<in> set ?idxs" unfolding l_def by (rule last_in_set)
  then have l: "l < length cs" "type_c (cs ! l) = Some ''outlet''"
    using mem [of l] by blast+
  from srt kin have "k \<le> l" unfolding l_def by (rule sorted_le_last)
  with assms(3) have dl: "dI < l + 1" by simp
  have fb: "fallbackPath cs dI = slice dI (l + 1) cs"
    using ne by (simp add: fallbackPath_def l_def split: list.splits)
  have "last (slice dI (l + 1) cs) = last (take (Suc l) cs)"
    using dl l(1) by (simp add: slice_def last_drop)
  also have "\<dots> = cs ! l" by (rule take_Suc_last [OF l(1)])
  finally have "type_c (last (slice dI (l + 1) cs)) = Some ''outlet''"
    using l(2) by simp
  with slice_startsAt [OF dl assms(1)] subseq_slice [of dI "l + 1" cs]
  show ?thesis by (simp add: outletPath_def fb)
qed

lemma takeMeta_mset:
  "mset (fst (takeMeta x s)) + mset (snd (takeMeta x s)) = mset (fst s) + mset (snd s)"
  by (cases x; cases s) (auto simp: takeMeta_def)

lemma metas_paths:
  "map (\<lambda>m. path_m (snd m)) (enumerate 0 (map metaOf ps)) = ps"
proof -
  have "map (\<lambda>m. path_m (snd m)) (enumerate 0 (map metaOf ps))
        = map path_m (map snd (enumerate 0 (map metaOf ps)))"
    by (simp only: map_map comp_def)
  also have "\<dots> = map path_m (map metaOf ps)" by (simp only: map_snd_enumerate)
  also have "\<dots> = ps" by (simp add: metaOf_def Let_def comp_def)
  finally show ?thesis .
qed

lemma orderPaths_mset: "mset (orderPaths ps) = mset ps"
proof -
  let ?metas = "enumerate 0 (map metaOf ps)"
  let ?withTee = "filter (\<lambda>m. teeRef_m (snd m) \<noteq> None \<and> distFromTee_m (snd m) > 0) ?metas"
  show ?thesis
  proof (cases ?withTee)
    case Nil
    then show ?thesis by (simp add: orderPaths_def Let_def)
  next
    case (Cons w ws)
    define s1 where "s1 = takeMeta (Some (furthest w (w # ws))) ([], ?metas)"
    define sib where "sib =
       (case sortByDist (filter (\<lambda>m. teeRef_m (snd m) = teeRef_m (snd (furthest w (w # ws)))) (snd s1)) of
          [] \<Rightarrow> None
        | m # _ \<Rightarrow> Some m)"
    define s2 where "s2 = takeMeta sib s1"
    have res: "orderPaths ps = map (\<lambda>m. path_m (snd m)) (fst s2 @ sortByDist (snd s2))"
      using Cons by (simp add: orderPaths_def Let_def s1_def sib_def s2_def)
    have "mset (fst s2 @ sortByDist (snd s2)) = mset (fst s2) + mset (snd s2)"
      by (simp add: sortByDist_def)
    also have "\<dots> = mset (fst s1) + mset (snd s1)"
      unfolding s2_def by (rule takeMeta_mset)
    also have "\<dots> = mset ?metas"
      using takeMeta_mset [of "Some (furthest w (w # ws))" "([], ?metas)"]
      by (simp add: s1_def)
    finally have "mset (fst s2 @ sortByDist (snd s2)) = mset ?metas" .
    then have "mset (map (\<lambda>m. path_m (snd m)) (fst s2 @ sortByDist (snd s2)))
        = mset (map (\<lambda>m. path_m (snd m)) ?metas)"
      by (simp only: mset_map)
    then show ?thesis
      by (simp only: res metas_paths)
  qed
qed

lemma lastOutletScan_snoc:
  "lastOutletScan n (xs @ [c]) acc =
     (if type_c c = Some ''outlet'' then Some (n + length xs) else lastOutletScan n xs acc)"
  by (induction xs arbitrary: n acc) simp_all

lemma endOutlet_snoc:
  "endOutlet (xs @ [c]) = (if type_c c = Some ''outlet'' then Some c else endOutlet xs)"
  by (simp add: endOutlet_def)

lemma trimToOutlet_snoc:
  "trimToOutlet (xs @ [c]) = (if type_c c = Some ''outlet'' then xs @ [c] else trimToOutlet xs)"
  by (simp add: trimToOutlet_def)

lemma lastOutletScan_endOutlet:
  "(lastOutletScan 0 path None = None \<longrightarrow> endOutlet path = None)
   \<and> (\<forall>i. lastOutletScan 0 path None = Some i \<longrightarrow>
         i < length path \<and> endOutlet path = Some (path ! i)
         \<and> slice 0 (i + 1) path = trimToOutlet path)"
proof (induction path rule: rev_induct)
  case Nil
  then show ?case by (simp add: endOutlet_def)
next
  case (snoc c xs)
  show ?case
  proof (cases "type_c c = Some ''outlet''")
    case True
    then show ?thesis
      by (simp add: lastOutletScan_snoc endOutlet_snoc trimToOutlet_snoc slice_def)
  next
    case False
    with snoc show ?thesis
      by (auto simp: lastOutletScan_snoc endOutlet_snoc trimToOutlet_snoc slice_def nth_append)
  qed
qed

lemma dedupLoop_keepFirst_seen:
  "dedupLoop seen ps = keepFirst (filter (\<lambda>q. endOutletId q \<notin> Some ` set seen) ps)"
proof (induction ps arbitrary: seen)
  case Nil
  then show ?case by simp
next
  case (Cons p ps)
  show ?case
  proof (cases "lastOutletScan 0 p None")
    case None
    with lastOutletScan_endOutlet [of p] have "endOutletId p = None"
      by (simp add: endOutletId_def)
    with None Cons.IH [of seen] show ?thesis by auto
  next
    case (Some i)
    with lastOutletScan_endOutlet [of p]
    have e: "endOutletId p = Some (id_c (p ! i))" and t: "slice 0 (i + 1) p = trimToOutlet p"
      by (simp_all add: endOutletId_def)
    show ?thesis
    proof (cases "id_c (p ! i) \<in> set seen")
      case True
      with Some e Cons.IH [of seen] show ?thesis by (simp add: Let_def)
    next
      case False
      have f: "filter (\<lambda>q. endOutletId q \<noteq> Some (id_c (p ! i)))
                 (filter (\<lambda>q. endOutletId q \<notin> Some ` set seen) ps)
               = filter (\<lambda>q. endOutletId q \<notin> Some ` set (id_c (p ! i) # seen)) ps"
        unfolding filter_filter by (rule filter_cong) auto
      have k: "endOutletId p \<notin> Some ` set seen" using e False by auto
      have g: "keepFirst (filter (\<lambda>q. endOutletId q \<notin> Some ` set seen) (p # ps))
          = trimToOutlet p
            # keepFirst (filter (\<lambda>q. endOutletId q \<noteq> Some (id_c (p ! i)))
                 (filter (\<lambda>q. endOutletId q \<notin> Some ` set seen) ps))"
        using k e by simp
      have "dedupLoop seen (p # ps)
          = slice 0 (i + 1) p # dedupLoop (id_c (p ! i) # seen) ps"
        using Some False by (simp add: Let_def)
      also have "\<dots> = trimToOutlet p
          # keepFirst (filter (\<lambda>q. endOutletId q \<notin> Some ` set (id_c (p ! i) # seen)) ps)"
        unfolding t Cons.IH [of "id_c (p ! i) # seen"] ..
      also have "\<dots> = keepFirst (filter (\<lambda>q. endOutletId q \<notin> Some ` set seen) (p # ps))"
        unfolding g f ..
      finally show ?thesis .
    qed
  qed
qed

lemma dedupLoop_keepFirst: "dedupLoop [] ps = keepFirst ps"
  by (simp add: dedupLoop_keepFirst_seen)

lemma slice_start:
  fixes a b :: nat
  assumes "a < length xs"
  shows "slice a b xs = [] \<or> hd (slice a b xs) = xs ! a"
proof (cases "a < b")
  case True
  with assms show ?thesis by (simp add: slice_def hd_drop_conv_nth)
next
  case False
  then show ?thesis by (simp add: slice_def)
qed

lemma sideTail_True_hd:
  "s < length cs \<Longrightarrow> sideTail True (drop s cs) \<noteq> [] \<and> hd (sideTail True (drop s cs)) = cs ! s"
  by (cases "drop s cs") (auto simp: hd_drop_conv_nth [symmetric])

lemma sidePath_start:
  assumes "dI < length cs" "\<not> isTeeType (cs ! dI)"
  shows "sidePath cs dI m s = [] \<or> hd (sidePath cs dI m s) = cs ! dI
    \<or> (\<not> (dI < m \<and> dI < s) \<and> hd (sidePath cs dI m s) = cs ! s)"
proof (cases "dI < m \<and> dI < s")
  case True
  with sidePath_startsAt [OF assms] show ?thesis by (simp add: startsAt_def)
next
  case False
  then have "slice dI (min m s) cs = []" by (auto simp: slice_def)
  then have sp: "sidePath cs dI m s = sideTail True (drop s cs)" by (simp add: sidePath_def)
  show ?thesis
  proof (cases "s < length cs")
    case True
    from sideTail_True_hd [OF this] False show ?thesis by (simp add: sp)
  next
    case False
    then show ?thesis by (simp add: sp)
  qed
qed

lemma branchPaths_start:
  assumes "dI < length cs" "\<not> isTeeType (cs ! dI)"
    and "p \<in> set (branchPaths cs dI sideM r m)"
  shows "subseq p cs \<and> (p = [] \<or> hd p = cs ! dI
    \<or> (\<exists>s. map_of sideM r = Some s \<and> \<not> (dI < m \<and> dI < s) \<and> hd p = cs ! s))"
proof -
  let ?f = "findIndex (\<lambda>idx c. idx \<ge> m \<and> type_c c = Some ''outlet'' \<and> tee_ref_c c = Some r) cs"
  from assms(3) have "(\<exists>k. ?f = Some k \<and> p = slice dI (k + 1) cs)
      \<or> (\<exists>s. map_of sideM r = Some s \<and> p = sidePath cs dI m s)"
    by (cases ?f; cases "map_of sideM r")
       (auto simp: branchPaths_def Let_def split: if_splits)
  then consider
    k where "?f = Some k" "p = slice dI (k + 1) cs"
    | s where "map_of sideM r = Some s" "p = sidePath cs dI m s"
    by blast
  then show ?thesis
  proof cases
    case 1
    have "p = [] \<or> hd p = cs ! dI"
      unfolding 1(2) by (rule slice_start [OF assms(1)])
    moreover have "subseq p cs" unfolding 1(2) by (rule subseq_slice)
    ultimately show ?thesis by blast
  next
    case 2
    from sidePath_start [OF assms(1,2), of m s] 2 show ?thesis
      by (auto simp: sidePath_subseq)
  qed
qed

lemma branchLoop_start:
  assumes "dI < length cs" "\<not> isTeeType (cs ! dI)"
    and "p \<in> set (branchLoop cs dI sideM handled entries)"
  shows "subseq p cs \<and> (p = [] \<or> hd p = cs ! dI
    \<or> (\<exists>r m s. (r, m) \<in> set entries \<and> map_of sideM r = Some s
          \<and> \<not> (dI < m \<and> dI < s) \<and> hd p = cs ! s))"
  using assms(3)
proof (induction entries arbitrary: handled)
  case Nil
  then show ?case by simp
next
  case (Cons e entries)
  obtain r m where e: "e = (r, m)" by (cases e)
  from Cons.prems e consider
      "p \<in> set (branchPaths cs dI sideM r m)"
    | h where "p \<in> set (branchLoop cs dI sideM h entries)"
    by (auto split: if_splits)
  then show ?case
  proof cases
    case 1
    have "(r, m) \<in> set (e # entries)" by (simp add: e)
    with branchPaths_start [OF assms(1,2) 1] show ?thesis by blast
  next
    case 2
    have "x \<in> set entries \<Longrightarrow> x \<in> set (e # entries)" for x by simp
    with Cons.IH [OF 2] show ?thesis by blast
  qed
qed

lemma earlyTeeSides_mem:
  assumes "(r, m) \<in> set (teeByRef ''tee_main'' cs)"
    and "map_of (teeByRef ''tee_side'' cs) r = Some s"
    and "\<not> (dI < m \<and> dI < s)"
  shows "cs ! s \<in> set (earlyTeeSides cs dI)"
proof -
  let ?F = "\<lambda>(ref, mainIdx).
              case map_of (teeByRef ''tee_side'' cs) ref of
                None \<Rightarrow> []
              | Some sideIdx \<Rightarrow>
                  if dI < mainIdx \<and> dI < sideIdx then [] else [cs ! sideIdx]"
  have "cs ! s \<in> set (?F (r, m))" using assms(2,3) by simp
  with assms(1) have "\<exists>e \<in> set (teeByRef ''tee_main'' cs). cs ! s \<in> set (?F e)"
    by (rule rev_bexI)
  then show ?thesis
    unfolding earlyTeeSides_def set_concat set_map by blast
qed

lemma candidatePaths_start:
  assumes "dI < length cs" "\<not> isTeeType (cs ! dI)"
    and "p \<in> set (candidatePaths cs dI)"
  shows "subseq p cs \<and> (p = [] \<or> hd p \<in> insert (cs ! dI) (set (earlyTeeSides cs dI)))"
proof -
  from branchLoop_start [OF assms(1,2) assms(3) [unfolded candidatePaths_def]]
  have sub: "subseq p cs"
    and st: "p = [] \<or> hd p = cs ! dI
      \<or> (\<exists>r m s. (r, m) \<in> set (teeByRef ''tee_main'' cs)
            \<and> map_of (teeByRef ''tee_side'' cs) r = Some s
            \<and> \<not> (dI < m \<and> dI < s) \<and> hd p = cs ! s)"
    by blast+
  from st consider "p = [] \<or> hd p = cs ! dI"
    | r m s where "(r, m) \<in> set (teeByRef ''tee_main'' cs)"
        "map_of (teeByRef ''tee_side'' cs) r = Some s" "\<not> (dI < m \<and> dI < s)" "hd p = cs ! s"
    by blast
  then have "p = [] \<or> hd p = cs ! dI \<or> hd p \<in> set (earlyTeeSides cs dI)"
  proof cases
    case 1
    then show ?thesis by blast
  next
    case 2
    from earlyTeeSides_mem [OF 2(1,2,3)] 2(4) show ?thesis by simp
  qed
  with sub show ?thesis by simp
qed

lemma dedupLoop_start:
  assumes "\<And>p. p \<in> set paths \<Longrightarrow> subseq p cs \<and> (p = [] \<or> hd p \<in> S)"
  shows "(\<forall>q \<in> set (dedupLoop seen paths).
            q \<noteq> [] \<and> hd q \<in> S \<and> type_c (last q) = Some ''outlet'' \<and> subseq q cs
            \<and> id_c (last q) \<notin> set seen)
     \<and> distinct (map (\<lambda>q. id_c (last q)) (dedupLoop seen paths))"
  using assms
proof (induction paths arbitrary: seen)
  case Nil
  then show ?case by simp
next
  case (Cons path rest)
  have rest: "\<And>p. p \<in> set rest \<Longrightarrow> subseq p cs \<and> (p = [] \<or> hd p \<in> S)"
    using Cons.prems by simp
  note IH = Cons.IH [OF rest]
  show ?case
  proof (cases "lastOutletScan 0 path None")
    case None
    with IH [of seen] show ?thesis by simp
  next
    case (Some i)
    from lastOutletScan_Some [OF Some]
    have i: "i < length path" "type_c (path ! i) = Some ''outlet''" by simp_all
    show ?thesis
    proof (cases "id_c (path ! i) \<in> set seen")
      case True
      with IH [of seen] Some show ?thesis by (simp add: Let_def)
    next
      case False
      let ?q = "slice 0 (i + 1) path"
      have q: "?q = take (Suc i) path" by (simp add: slice_def)
      from i(1) have ne: "path \<noteq> []" by auto
      with Cons.prems [of path] have p: "hd path \<in> S" "subseq path cs" by auto
      have lastq: "last ?q = path ! i" unfolding q by (rule take_Suc_last [OF i(1)])
      have "subseq ?q path" by (rule subseq_slice)
      from this p(2) have sub: "subseq ?q cs" by (rule subseq_order.trans)
      have st: "?q \<noteq> [] \<and> hd ?q \<in> S"
        using p(1) ne unfolding q by (cases path) simp_all
      from IH [of "id_c (path ! i) # seen"]
      have r: "\<forall>q \<in> set (dedupLoop (id_c (path ! i) # seen) rest).
             q \<noteq> [] \<and> hd q \<in> S \<and> type_c (last q) = Some ''outlet'' \<and> subseq q cs
             \<and> id_c (last q) \<noteq> id_c (path ! i) \<and> id_c (last q) \<notin> set seen"
        and dist: "distinct (map (\<lambda>q. id_c (last q)) (dedupLoop (id_c (path ! i) # seen) rest))"
        by auto
      have out: "dedupLoop seen (path # rest) = ?q # dedupLoop (id_c (path ! i) # seen) rest"
        using Some False by (simp add: Let_def)
      show ?thesis
        unfolding out using st sub r dist False lastq i(2) by auto
    qed
  qed
qed

lemma outletIdxs_mem:
  "i \<in> set (map fst (filter (\<lambda>(idx, c). type_c c = Some ''outlet'') (enumerate 0 cs)))
   \<longleftrightarrow> i < length cs \<and> type_c (cs ! i) = Some ''outlet''"
proof
  assume "i \<in> set (map fst (filter (\<lambda>(idx, c). type_c c = Some ''outlet'') (enumerate 0 cs)))"
  then show "i < length cs \<and> type_c (cs ! i) = Some ''outlet''"
    by (auto simp: in_set_enumerate_eq)
next
  assume a: "i < length cs \<and> type_c (cs ! i) = Some ''outlet''"
  then have "(i, cs ! i) \<in> set (filter (\<lambda>(idx, c). type_c c = Some ''outlet'') (enumerate 0 cs))"
    by (simp add: in_set_enumerate_eq)
  then have "fst (i, cs ! i)
      \<in> set (map fst (filter (\<lambda>(idx, c). type_c c = Some ''outlet'') (enumerate 0 cs)))"
    unfolding set_map by (rule imageI)
  then show "i \<in> set (map fst (filter (\<lambda>(idx, c). type_c c = Some ''outlet'') (enumerate 0 cs)))"
    by simp
qed

lemma fallbackPath_subseq: "subseq (fallbackPath cs dI) cs"
  by (simp add: fallbackPath_def subseq_slice subseq_drop_self split: list.splits)

lemma fallbackPath_start:
  assumes "dI < length cs"
  shows "fallbackPath cs dI = [] \<or> hd (fallbackPath cs dI) = cs ! dI"
proof (cases "map fst (filter (\<lambda>(idx, c). type_c c = Some ''outlet'') (enumerate 0 cs))")
  case Nil
  with assms show ?thesis by (simp add: fallbackPath_def hd_drop_conv_nth)
next
  case (Cons a as)
  then have "fallbackPath cs dI = slice dI (last (a # as) + 1) cs"
    by (simp add: fallbackPath_def)
  with slice_start [OF assms] show ?thesis by simp
qed

lemma fallbackPath_no_outlet:
  assumes "dI < length cs"
    and "\<not> list_ex (\<lambda>c. type_c c = Some ''outlet'') (drop dI cs)"
  shows "fallbackPath cs dI = [] \<or> type_c (last (fallbackPath cs dI)) \<noteq> Some ''outlet''"
proof -
  let ?idxs = "map fst (filter (\<lambda>(idx, c). type_c c = Some ''outlet'') (enumerate 0 cs))"
  have no: "type_c (cs ! i) \<noteq> Some ''outlet''" if "dI \<le> i" "i < length cs" for i
  proof
    assume o: "type_c (cs ! i) = Some ''outlet''"
    from that have "i - dI < length (drop dI cs)" "drop dI cs ! (i - dI) = cs ! i"
      by simp_all
    then have "cs ! i \<in> set (drop dI cs)" by (metis nth_mem)
    with o assms(2) show False by (auto simp: list_ex_iff)
  qed
  show ?thesis
  proof (cases "?idxs = []")
    case True
    then have fb: "fallbackPath cs dI = drop dI cs" by (simp add: fallbackPath_def)
    have "last (drop dI cs) = cs ! (length cs - 1)"
      using assms(1) by (simp add: last_drop last_conv_nth)
    with no [of "length cs - 1"] assms(1) show ?thesis by (simp add: fb)
  next
    case False
    define l where "l = last ?idxs"
    from False have "l \<in> set ?idxs" unfolding l_def by (rule last_in_set)
    then have l: "l < length cs" "type_c (cs ! l) = Some ''outlet''"
      using outletIdxs_mem [of l cs] by blast+
    with no [of l] have "l < dI" by (cases "dI \<le> l") auto
    have "fallbackPath cs dI = slice dI (l + 1) cs"
      using False by (simp add: fallbackPath_def l_def split: list.splits)
    with \<open>l < dI\<close> show ?thesis by (simp add: slice_def)
  qed
qed

text \<open>
  C6 (path decomposition invariant), as the code has it. Let the first discharge
  stand at \<open>dI\<close>. Up to the order in which they are returned, the output paths
  are the branch-derived candidate paths deduplicated by outlet id, keeping the
  first (each cut after its last outlet), or, when no candidate is kept, the
  one fallback path. There is at least one output path, no two output paths
  end at outlets of the same id, and every output path keeps the draw order.
  Every output path that is not empty begins at the discharge, or at the
  \<open>tee_side\<close> of a tee whose \<open>tee_main\<close> or \<open>tee_side\<close> is not drawn after the
  discharge. Every output path ends at an outlet if and only if a candidate is
  kept or an outlet is drawn at or after the discharge. So, when no tee is
  drawn that early and an outlet follows the discharge, every output path
  begins at the discharge and ends at an outlet.
\<close>

theorem splitByOutlet_paths:
  assumes "findIndex (\<lambda>idx c. type_c c = Some ''discharge'') components = Some dI"
  shows "type_c (components ! dI) = Some ''discharge''
    \<and> mset (splitByOutlet components)
        = mset (if keepFirst (candidatePaths components dI) = []
                then [fallbackPath components dI]
                else keepFirst (candidatePaths components dI))
    \<and> splitByOutlet components \<noteq> []
    \<and> distinct (map (\<lambda>p. id_c (last p)) (splitByOutlet components))
    \<and> list_all (\<lambda>p. subseq p components) (splitByOutlet components)
    \<and> list_all (\<lambda>p. p = [] \<or> hd p = components ! dI
                      \<or> hd p \<in> set (earlyTeeSides components dI))
        (splitByOutlet components)
    \<and> (list_all (\<lambda>p. p \<noteq> [] \<and> type_c (last p) = Some ''outlet'') (splitByOutlet components)
        \<longleftrightarrow> keepFirst (candidatePaths components dI) \<noteq> []
            \<or> list_ex (\<lambda>c. type_c c = Some ''outlet'') (drop dI components))
    \<and> (earlyTeeSides components dI = []
        \<and> (keepFirst (candidatePaths components dI) \<noteq> []
           \<or> list_ex (\<lambda>c. type_c c = Some ''outlet'') (drop dI components))
        \<longrightarrow> list_all (outletPath components (components ! dI)) (splitByOutlet components))"
proof -
  let ?d = "components ! dI"
  let ?S = "insert ?d (set (earlyTeeSides components dI))"
  let ?K = "keepFirst (candidatePaths components dI)"
  let ?fb = "fallbackPath components dI"
  let ?B = "if ?K = [] then [?fb] else ?K"
  let ?out = "splitByOutlet components"
  let ?ex = "list_ex (\<lambda>c. type_c c = Some ''outlet'') (drop dI components)"
  from findIndex_Some [OF assms]
  have dI: "dI < length components" and disch: "type_c ?d = Some ''discharge''" by simp_all
  then have notee: "\<not> isTeeType ?d" by (simp add: isTeeType_def)
  have K: "dedupLoop [] (candidatePaths components dI) = ?K"
    by (rule dedupLoop_keepFirst)
  have cand: "subseq p components \<and> (p = [] \<or> hd p \<in> ?S)"
    if "p \<in> set (candidatePaths components dI)" for p
    by (rule candidatePaths_start [OF dI notee that])
  have "(\<forall>q \<in> set (dedupLoop [] (candidatePaths components dI)).
            q \<noteq> [] \<and> hd q \<in> ?S \<and> type_c (last q) = Some ''outlet'' \<and> subseq q components
            \<and> id_c (last q) \<notin> set [])
     \<and> distinct (map (\<lambda>q. id_c (last q)) (dedupLoop [] (candidatePaths components dI)))"
    by (rule dedupLoop_start) (rule cand)
  then have ded: "\<forall>q \<in> set ?K. q \<noteq> [] \<and> hd q \<in> ?S \<and> type_c (last q) = Some ''outlet''
               \<and> subseq q components"
    and dist: "distinct (map (\<lambda>q. id_c (last q)) ?K)"
    unfolding K by blast+
  have ne: "components \<noteq> []" using dI by auto
  have split: "?out = orderPaths ?B"
    using ne assms by (simp add: splitByOutlet_def Let_def K candidatePaths_def [symmetric])
  have m: "mset ?out = mset ?B"
    unfolding split by (rule orderPaths_mset)
  have sets: "set ?out = set ?B" by (rule mset_eq_setD [OF m])
  have c3: "?out \<noteq> []"
  proof
    assume "?out = []"
    with m have "mset ?B = {#}" by simp
    then have "?B = []" by (simp only: mset_zero_iff)
    then show False by (simp split: if_splits)
  qed
  have "mset (map (\<lambda>q. id_c (last q)) ?out) = mset (map (\<lambda>q. id_c (last q)) ?B)"
    using m by (simp only: mset_map)
  from mset_eq_imp_distinct_iff [OF this] dist
  have c4: "distinct (map (\<lambda>p. id_c (last p)) ?out)" by simp
  have c5: "list_all (\<lambda>p. subseq p components) ?out"
    unfolding list_all_iff sets using ded fallbackPath_subseq [of components dI] by simp
  have c6: "list_all (\<lambda>p. p = [] \<or> hd p = ?d \<or> hd p \<in> set (earlyTeeSides components dI)) ?out"
    unfolding list_all_iff sets using ded fallbackPath_start [OF dI] by auto
  have fbok: "outletPath components ?d ?fb" if ?ex
  proof -
    from that obtain i where i: "i < length (drop dI components)"
      "type_c (drop dI components ! i) = Some ''outlet''"
      by (auto simp: list_ex_iff in_set_conv_nth)
    define k where "k = dI + i"
    from i dI have k: "k < length components" "dI \<le> k"
      "type_c (components ! k) = Some ''outlet''"
      by (simp_all add: k_def)
    show ?thesis by (rule fallbackPath_ok [OF dI k])
  qed
  have ends: "\<forall>q \<in> set ?B. q \<noteq> [] \<and> type_c (last q) = Some ''outlet''" if "?K \<noteq> [] \<or> ?ex"
  proof (cases "?K = []")
    case True
    with that fbok show ?thesis by (simp add: outletPath_def startsAt_def)
  next
    case False
    with ded show ?thesis by simp
  qed
  have noends: "\<not> (\<forall>q \<in> set ?B. q \<noteq> [] \<and> type_c (last q) = Some ''outlet'')"
    if "?K = []" "\<not> ?ex"
    using fallbackPath_no_outlet [OF dI that(2)] that(1) by auto
  have c7: "list_all (\<lambda>p. p \<noteq> [] \<and> type_c (last p) = Some ''outlet'') ?out
      \<longleftrightarrow> ?K \<noteq> [] \<or> ?ex"
    unfolding list_all_iff sets using ends noends by blast
  have c8: "list_all (outletPath components ?d) ?out"
    if e: "earlyTeeSides components dI = []" and k: "?K \<noteq> [] \<or> ?ex"
  proof -
    have "outletPath components ?d q" if q: "q \<in> set ?B" for q
    proof (cases "?K = []")
      case True
      with q k fbok show ?thesis by simp
    next
      case False
      with q ded e show ?thesis by (simp add: outletPath_def startsAt_def)
    qed
    then show ?thesis unfolding list_all_iff sets by blast
  qed
  from disch m c3 c4 c5 c6 c7 c8 show ?thesis by blast
qed

text \<open>
  On the normalized drawing discharge, pipe a discharge exists, yet the only
  path ends at a pipe: with no outlet drawn, the fallback path runs from the
  discharge to the end of the list. On the normalized drawing tee, pipe,
  discharge, pipe, outlet, pipe, outlet the discharge stands at 2 and the side
  path begins at the \<open>tee_side\<close>, not at the discharge.
\<close>

theorem splitByOutlet_paths_counterexample:
  "findIndex (\<lambda>idx c. type_c c = Some ''discharge'')
     (readAll (normalized [0, 1] noOutletDrawn)) = Some 0
   \<and> map (map type_c) (splitByOutlet (readAll (normalized [0, 1] noOutletDrawn)))
       = [[Some ''discharge'', Some ''pipe'']]
   \<and> type_c (last (splitByOutlet (readAll (normalized [0, 1] noOutletDrawn)) ! 0))
       \<noteq> Some ''outlet''
   \<and> findIndex (\<lambda>idx c. type_c c = Some ''discharge'')
       (readAll (normalized [0, 1, 2, 3, 4, 5, 6] teeBeforeDischargeDrawn)) = Some 2
   \<and> map (map type_c)
       (splitByOutlet (readAll (normalized [0, 1, 2, 3, 4, 5, 6] teeBeforeDischargeDrawn)))
       = [[Some ''discharge'', Some ''pipe'', Some ''outlet''],
          [Some ''tee_side'', Some ''elbow45'', Some ''pipe'', Some ''outlet'']]
   \<and> type_c (hd (splitByOutlet
         (readAll (normalized [0, 1, 2, 3, 4, 5, 6] teeBeforeDischargeDrawn)) ! 1))
       \<noteq> Some ''discharge''"
  by code_simp

text \<open>Scenario B: the main path and the side path, by the ids of their components.\<close>

lemma scenarioB_split:
  "map (map id_c) (splitByOutlet scenarioBfilled) = [[0, 1, 2, 3, 4], [0, 1, 7, 9, 5, 6]]"
  by code_simp


lemma scenarioB_keepFirst:
  "map (map id_c) (keepFirst (candidatePaths scenarioBfilled 0))
   = [[0, 1, 2, 3, 4], [0, 1, 7, 9, 5, 6]]"
  by code_simp

lemma scenarioB_earlyTeeSides: "earlyTeeSides scenarioBfilled 0 = []"
  by code_simp

theorem splitByOutlet_paths_witness:
  "findIndex (\<lambda>idx c. type_c c = Some ''discharge'') scenarioBfilled = Some 0
   \<and> earlyTeeSides scenarioBfilled 0 = []
   \<and> list_ex (\<lambda>c. type_c c = Some ''outlet'') (drop 0 scenarioBfilled)
   \<and> type_c (scenarioBfilled ! 0) = Some ''discharge''
   \<and> mset (splitByOutlet scenarioBfilled) = mset (keepFirst (candidatePaths scenarioBfilled 0))
   \<and> map (map id_c) (keepFirst (candidatePaths scenarioBfilled 0))
       = [[0, 1, 2, 3, 4], [0, 1, 7, 9, 5, 6]]
   \<and> splitByOutlet scenarioBfilled \<noteq> []
   \<and> distinct (map (\<lambda>p. id_c (last p)) (splitByOutlet scenarioBfilled))
   \<and> list_all (outletPath scenarioBfilled (scenarioBfilled ! 0)) (splitByOutlet scenarioBfilled)
   \<and> map (map id_c) (splitByOutlet scenarioBfilled) = [[0, 1, 2, 3, 4], [0, 1, 7, 9, 5, 6]]"
proof -
  have h1: "findIndex (\<lambda>idx c. type_c c = Some ''discharge'') scenarioBfilled = Some 0"
    by (simp add: scenarioBfilled_def mk_def findIndex_def enumerate_eq_zip upt_conv_Cons)
  have h2: "earlyTeeSides scenarioBfilled 0 = []" by (rule scenarioB_earlyTeeSides)
  have h3: "list_ex (\<lambda>c. type_c c = Some ''outlet'') (drop 0 scenarioBfilled)"
    by (simp add: scenarioBfilled_def mk_def)
  have k: "keepFirst (candidatePaths scenarioBfilled 0) \<noteq> []"
    using scenarioB_keepFirst by auto
  note t = splitByOutlet_paths [OF h1]
  from t have "mset (splitByOutlet scenarioBfilled)
      = mset (if keepFirst (candidatePaths scenarioBfilled 0) = []
              then [fallbackPath scenarioBfilled 0]
              else keepFirst (candidatePaths scenarioBfilled 0))"
    by blast
  with k have m: "mset (splitByOutlet scenarioBfilled)
      = mset (keepFirst (candidatePaths scenarioBfilled 0))"
    by simp
  from t h2 h3
  have p: "list_all (outletPath scenarioBfilled (scenarioBfilled ! 0)) (splitByOutlet scenarioBfilled)"
    by blast
  from t have r: "type_c (scenarioBfilled ! 0) = Some ''discharge''"
    "splitByOutlet scenarioBfilled \<noteq> []"
    "distinct (map (\<lambda>p. id_c (last p)) (splitByOutlet scenarioBfilled))"
    by blast+
  from h1 h2 h3 r m scenarioB_keepFirst p scenarioB_split show ?thesis by blast
qed

subsection \<open>The constructor leaves its input alone\<close>

lemma frame_refl: "n \<le> length s \<Longrightarrow> frame n s s"
  by (simp add: frame_def)

lemma frame_trans: "frame n s s' \<Longrightarrow> frame n s' s'' \<Longrightarrow> frame n s s''"
  by (simp add: frame_def)

lemma frame_length: "frame n s s' \<Longrightarrow> n \<le> length s'"
  by (simp add: frame_def)

lemma alloc_frame:
  assumes "n \<le> length s" and "alloc obj s = (r, s')"
  shows "frame n s s' \<and> n \<le> r"
  using assms by (auto simp: alloc_def frame_def)

lemma update_frame:
  assumes "n \<le> length s" and "n \<le> r"
  shows "frame n s (s[r := v])"
  using assms by (simp add: frame_def)

lemma fresh_Cons [simp]: "fresh n (r # rs) = (n \<le> r \<and> fresh n rs)"
  by (simp add: fresh_def)

lemma fresh_Nil [simp]: "fresh n []"
  by (simp add: fresh_def)

lemma fresh_nth: "fresh n rs \<Longrightarrow> i < length rs \<Longrightarrow> n \<le> rs ! i"
  by (simp add: fresh_def list_all_length)

lemma fresh_spliceIn: "fresh n rs \<Longrightarrow> n \<le> r \<Longrightarrow> fresh n (spliceIn i r rs)"
  by (auto simp: fresh_def spliceIn_def list_all_iff dest: in_set_takeD in_set_dropD)

lemma fresh_rev: "fresh n (rev rs) = fresh n rs"
  by (simp add: fresh_def list_all_iff)

lemma copyAll_frame:
  assumes "n \<le> length s" and "copyAll rs s = (rs', s')"
  shows "frame n s s' \<and> fresh n rs'"
  using assms
proof (induction rs arbitrary: s rs' s')
  case Nil
  then show ?case by (simp add: frame_refl)
next
  case (Cons r rs)
  obtain r1 s1 where a: "alloc (s ! r) s = (r1, s1)" by (cases "alloc (s ! r) s")
  obtain rs2 s2 where c: "copyAll rs s1 = (rs2, s2)" by (cases "copyAll rs s1")
  from alloc_frame [OF Cons.prems(1) a] have 1: "frame n s s1" "n \<le> r1" by simp_all
  from Cons.IH [OF frame_length [OF 1(1)] c] have 2: "frame n s1 s2" "fresh n rs2" by simp_all
  from Cons.prems(2) a c have "rs' = r1 # rs2" "s' = s2" by simp_all
  with 1 2 show ?case by (auto intro: frame_trans)
qed

lemma verticalAll_frame:
  assumes "n \<le> length s" and "fresh n rs" and "verticalAll canon rs s = (rs', s')"
  shows "frame n s s' \<and> fresh n rs'"
  using assms
proof (induction rs arbitrary: s rs' s')
  case Nil
  then show ?case by (simp add: frame_refl)
next
  case (Cons r rs)
  from Cons.prems(2) have f: "n \<le> r" "fresh n rs" by simp_all
  show ?case
  proof (cases "component_c (s ! r) = edge \<and> type_c (s ! r) = Some ''pipe''")
    case True
    let ?obj = "(s ! r)\<lparr>vertical_c := Some (computeVerticalFlag (s ! r) (map ((!) s) canon))\<rparr>"
    obtain r1 s1 where a: "alloc ?obj s = (r1, s1)" by (cases "alloc ?obj s")
    obtain rs2 s2 where c: "verticalAll canon rs s1 = (rs2, s2)"
      by (cases "verticalAll canon rs s1")
    from alloc_frame [OF Cons.prems(1) a] have 1: "frame n s s1" "n \<le> r1" by simp_all
    from Cons.IH [OF frame_length [OF 1(1)] f(2) c] have 2: "frame n s1 s2" "fresh n rs2"
      by simp_all
    from Cons.prems(3) True a c have "rs' = r1 # rs2" "s' = s2" by simp_all
    with 1 2 show ?thesis by (auto intro: frame_trans)
  next
    case False
    obtain rs2 s2 where c: "verticalAll canon rs s = (rs2, s2)"
      by (cases "verticalAll canon rs s")
    from Cons.IH [OF Cons.prems(1) f(2) c] have 2: "frame n s s2" "fresh n rs2" by simp_all
    from Cons.prems(3) False c have "rs' = r # rs2" "s' = s2" by auto
    with 2 f show ?thesis by simp
  qed
qed

lemma normalizeTees_frame:
  assumes "n \<le> length s" and "fresh n rs"
  shows "frame n s (normalizeTees k rs s)"
  using assms
proof (induction rs arbitrary: s k)
  case Nil
  then show ?case by (simp add: frame_refl)
next
  case (Cons r rs)
  from Cons.prems(2) have f: "n \<le> r" "fresh n rs" by simp_all
  have step: "frame n s (normalizeTees k' rs (s[r := v]))" for k' v
  proof -
    have 1: "frame n s (s[r := v])" by (rule update_frame [OF Cons.prems(1) f(1)])
    have 2: "frame n (s[r := v]) (normalizeTees k' rs (s[r := v]))"
      by (rule Cons.IH [OF frame_length [OF 1] f(2)])
    from 1 2 show ?thesis by (rule frame_trans)
  qed
  show ?case
    using step Cons.IH [OF Cons.prems(1) f(2)]
    by (simp split: option.splits)
qed

lemma pairTees_frame:
  assumes "n \<le> length s" and "fresh n result"
    and "list_all (\<lambda>i. i < length result) os"
  shows "frame n s (pairTees ts os result s)"
  using assms
proof (induction ts os result s rule: pairTees.induct)
  case (1 teeIdx teeIndexes outletIdx outletIndexes result s)
  from "1.prems"(3) have i: "outletIdx < length result"
    "list_all (\<lambda>i. i < length result) outletIndexes" by simp_all
  let ?tee = "s ! (result ! teeIdx)"
  let ?outlet = "s ! (result ! outletIdx)"
  let ?s1 = "if tee_ref_c ?outlet = None \<and> tee_ref_c ?tee \<noteq> None
           then s[result ! outletIdx := ?outlet\<lparr>tee_ref_c := tee_ref_c ?tee\<rparr>]
           else s"
  have r: "n \<le> result ! outletIdx" by (rule fresh_nth [OF "1.prems"(2) i(1)])
  have f1: "frame n s ?s1"
    using update_frame [OF "1.prems"(1) r] frame_refl [OF "1.prems"(1)] by simp
  have "frame n ?s1 (pairTees teeIndexes outletIndexes result ?s1)"
    by (rule "1.IH" [OF refl refl frame_length [OF f1] "1.prems"(2) i(2)])
  with f1 have "frame n s (pairTees teeIndexes outletIndexes result ?s1)"
    by (rule frame_trans)
  then show ?case by (simp add: Let_def)
qed (simp_all add: frame_refl)

lemma elbowLoop_frame:
  assumes "n \<le> length s" and "fresh n result" and "elbowLoop ts off result s = (result', s')"
  shows "frame n s s' \<and> fresh n result'"
  using assms
proof (induction ts arbitrary: off result s)
  case Nil
  then show ?case by (simp add: frame_refl)
next
  case (Cons teeIdx ts)
  let ?idx = "teeIdx + off"
  let ?b = "find (\<lambda>i. type_c (s ! (result ! i)) = Some ''pipe'') (rev [0..<?idx])"
  let ?a = "find (\<lambda>i. type_c (s ! (result ! i)) = Some ''pipe'') [?idx + 1..<length result]"
  show ?case
  proof (cases "\<exists>b a. ?b = Some b \<and> ?a = Some a
                  \<and> isPipeVertical result s b \<noteq> isPipeVertical result s a")
    case True
    then obtain b a where ba: "?b = Some b" "?a = Some a"
      "isPipeVertical result s b \<noteq> isPipeVertical result s a" by blast
    define elbow90 where "elbow90 =
       \<lparr>component_c = node, id_c = int (length result), type_c = Some ''elbow90'',
        fromId_c = Some (id_c (s ! (result ! ?idx))),
        toId_c = (if ?idx + 1 < length result
                  then Some (id_c (s ! (result ! (?idx + 1)))) else None),
        x_c = x_c (s ! (result ! ?idx)), y_c = y_c (s ! (result ! ?idx)),
        diameter_c = None, length_c = None,
        capacity_c = None, tee_ref_c = tee_ref_c (s ! (result ! ?idx)), draw_index_c = None,
        vertical_c = None\<rparr>"
    obtain r s1 where al: "alloc elbow90 s = (r, s1)" by (cases "alloc elbow90 s")
    from alloc_frame [OF Cons.prems(1) al] have 1: "frame n s s1" "n \<le> r" by simp_all
    have eq: "elbowLoop (teeIdx # ts) off result s
        = elbowLoop ts (off + 1) (spliceIn (?idx + 1) r result) s1"
      using ba al by (simp add: Let_def elbow90_def)
    from Cons.IH [OF frame_length [OF 1(1)] fresh_spliceIn [OF Cons.prems(2) 1(2)]]
      Cons.prems(3) eq
    have "frame n s1 s' \<and> fresh n result'" by simp
    with 1(1) show ?thesis by (auto intro: frame_trans)
  next
    case False
    then have eq: "elbowLoop (teeIdx # ts) off result s = elbowLoop ts off result s"
      by (auto simp: Let_def split: option.splits)
    from Cons.IH [OF Cons.prems(1,2)] Cons.prems(3) eq show ?thesis by simp
  qed
qed

lemma alloc_eq: "alloc obj s = (length s, s @ [obj])"
  by (simp add: alloc_def)

lemma frame_append: "n \<le> length s \<Longrightarrow> frame n s (s @ xs)"
  by (simp add: frame_def)

lemma teeSideLoop_frame:
  assumes "n \<le> length s" and "fresh n result" and "teeSideLoop os result s = (result', s')"
  shows "frame n s s' \<and> fresh n result'"
  using assms
proof (induction os arbitrary: result s)
  case Nil
  then show ?case by (simp add: frame_refl)
next
  case (Cons outletIndex os)
  have "\<exists>result2 s2. teeSideLoop os result2 s2 = (result', s')
          \<and> frame n s s2 \<and> fresh n result2"
  proof (cases "teeSideLoop (outletIndex # os) result s = teeSideLoop os result s")
    case True
    with Cons.prems show ?thesis
      by (auto intro: frame_refl)
  next
    case False
    then obtain a b where eq: "teeSideLoop (outletIndex # os) result s =
        teeSideLoop os
          (spliceIn (outletIndex + 2) (Suc (length s))
             (spliceIn (outletIndex + 1) (length s) result))
          (s @ [a, b])"
      by (auto simp: Let_def alloc_eq split: if_splits)
    have "fresh n (spliceIn (outletIndex + 2) (Suc (length s))
             (spliceIn (outletIndex + 1) (length s) result))"
      using Cons.prems(1,2) by (intro fresh_spliceIn) simp_all
    moreover have "frame n s (s @ [a, b])"
      by (rule frame_append [OF Cons.prems(1)])
    ultimately show ?thesis
      using Cons.prems(3) eq by auto
  qed
  then obtain result2 s2 where r: "teeSideLoop os result2 s2 = (result', s')"
    "frame n s s2" "fresh n result2" by blast
  from Cons.IH [OF frame_length [OF r(2)] r(3) r(1)] r(2)
  show ?case by (auto intro: frame_trans)
qed

lemma allocAll_frame:
  assumes "n \<le> length s" and "allocAll objs s = (rs, s')"
  shows "frame n s s' \<and> fresh n rs"
  using assms
proof (induction objs arbitrary: s rs s')
  case Nil
  then show ?case by (simp add: frame_refl)
next
  case (Cons obj objs)
  obtain r1 s1 where a: "alloc obj s = (r1, s1)" by (cases "alloc obj s")
  obtain rs2 s2 where c: "allocAll objs s1 = (rs2, s2)" by (cases "allocAll objs s1")
  from alloc_frame [OF Cons.prems(1) a] have 1: "frame n s s1" "n \<le> r1" by simp_all
  from Cons.IH [OF frame_length [OF 1(1)] c] have 2: "frame n s1 s2" "fresh n rs2" by simp_all
  from Cons.prems(2) a c have "rs = r1 # rs2" "s' = s2" by simp_all
  with 1 2 show ?case by (auto intro: frame_trans)
qed

lemma indexesOfType_bound: "list_all (\<lambda>i. i < length arr) (indexesOfType t arr s)"
  by (simp add: indexesOfType_def list_all_iff)

lemma fillTee_frame:
  assumes "n \<le> length s" and "fillTee components s = (result', s')"
  shows "frame n s s' \<and> fresh n result'"
proof -
  obtain result s1 where c: "copyAll components s = (result, s1)"
    by (cases "copyAll components s")
  define s2 where "s2 = normalizeTees 0 result s1"
  define s3 where "s3 = pairTees (indexesOfType ''tee_main'' result s2)
                          (indexesOfType ''outlet'' result s2) result s2"
  obtain result4 s4 where e:
    "elbowLoop (indexesOfType ''tee_main'' result s2) 0 result s3 = (result4, s4)"
    by (cases "elbowLoop (indexesOfType ''tee_main'' result s2) 0 result s3")
  have "\<exists>os. teeSideLoop os result4 s4 = (result', s')"
    using assms(2) c e
    by (auto simp: fillTee_def Let_def s2_def s3_def)
  then obtain os where t: "teeSideLoop os result4 s4 = (result', s')" ..
  from copyAll_frame [OF assms(1) c] have 1: "frame n s s1" "fresh n result" by simp_all
  have 2: "frame n s1 s2"
    unfolding s2_def by (rule normalizeTees_frame [OF frame_length [OF 1(1)] 1(2)])
  have 3: "frame n s2 s3"
    unfolding s3_def
    by (rule pairTees_frame [OF frame_length [OF 2] 1(2) indexesOfType_bound])
  from elbowLoop_frame [OF frame_length [OF 3] 1(2) e]
  have 4: "frame n s3 s4" "fresh n result4" by simp_all
  from teeSideLoop_frame [OF frame_length [OF 4(1)] 4(2) t]
  have 5: "frame n s4 s'" "fresh n result'" by simp_all
  have "frame n s s'"
    by (rule frame_trans [OF frame_trans [OF frame_trans [OF frame_trans [OF 1(1) 2] 3] 4(1)] 5(1)])
  with 5(2) show ?thesis by simp
qed

lemma normalized_frame:
  assumes "n \<le> length s" and "normalized components s = (filled, s')"
  shows "frame n s s'"
proof -
  obtain t s1 where a: "fillTee components s = (t, s1)" by (cases "fillTee components s")
  obtain c s2 where b: "fillCapacity_store t s1 = (c, s2)"
    by (cases "fillCapacity_store t s1")
  from assms(2) a b have d: "fillDiameter_store c s2 = (filled, s')"
    by (simp add: normalized_def)
  from fillTee_frame [OF assms(1) a] have 1: "frame n s s1" by simp
  obtain rr where "allocAll (fillCapacity_map 0 Map.empty (rev (map ((!) s1) t))) s1 = (rr, s2)"
    using b by (auto simp: fillCapacity_store_def split: prod.splits)
  from allocAll_frame [OF frame_length [OF 1] this] have 2: "frame n s1 s2" by simp
  from allocAll_frame [OF frame_length [OF 2] d [unfolded fillDiameter_store_def]]
  have 3: "frame n s2 s'" by simp
  show ?thesis
    by (rule frame_trans [OF frame_trans [OF 1 2] 3])
qed

text \<open>
  C8 (input immutability). Whatever the store and the input array, after the
  constructor has run every object that existed before is field for field what
  it was: the store restricted to the old addresses is the old store, and the
  components the caller's array names read as before. All the constructor's
  writes go to objects it allocated itself.
\<close>

theorem constructor_input_unchanged:
  assumes "list_all (\<lambda>r. r < length s) inputComponents"
  shows "take (length s) (fst (constructor inputComponents s)) = s
    \<and> map ((!) (fst (constructor inputComponents s))) inputComponents
        = map ((!) s) inputComponents"
proof -
  let ?n = "length s"
  obtain canon0 s1 where a: "copyAll inputComponents s = (canon0, s1)"
    by (cases "copyAll inputComponents s")
  obtain canon s2 where b: "verticalAll canon0 canon0 s1 = (canon, s2)"
    by (cases "verticalAll canon0 canon0 s1")
  obtain arr s3 where c: "copyAll canon s2 = (arr, s3)" by (cases "copyAll canon s2")
  obtain filled s4 where d: "normalized arr s3 = (filled, s4)" by (cases "normalized arr s3")
  have fin: "fst (constructor inputComponents s) = s4"
    using a b c d by (simp add: constructor_def)
  from copyAll_frame [OF le_refl a] have 1: "frame ?n s s1" "fresh ?n canon0" by simp_all
  from verticalAll_frame [OF frame_length [OF 1(1)] 1(2) b] have 2: "frame ?n s1 s2" by simp
  from copyAll_frame [OF frame_length [OF 2] c] have 3: "frame ?n s2 s3" by simp
  from normalized_frame [OF frame_length [OF 3] d] have 4: "frame ?n s3 s4" .
  have "frame ?n s s4"
    by (rule frame_trans [OF frame_trans [OF frame_trans [OF 1(1) 2] 3] 4])
  then have t: "take ?n s4 = s" by (simp add: frame_def)
  have "s4 ! r = s ! r" if "r < ?n" for r
  proof -
    from that have "take ?n s4 ! r = s4 ! r" by simp
    with t show ?thesis by simp
  qed
  with assms have "map ((!) s4) inputComponents = map ((!) s) inputComponents"
    by (simp add: list_all_iff)
  with t fin show ?thesis by simp
qed

theorem constructor_input_unchanged_witness:
  "list_all (\<lambda>r. r < length scenarioBdrawn) [0, 1, 2, 3, 4, 5, 6]
   \<and> take (length scenarioBdrawn) (fst (constructor [0, 1, 2, 3, 4, 5, 6] scenarioBdrawn))
       = scenarioBdrawn
   \<and> map ((!) (fst (constructor [0, 1, 2, 3, 4, 5, 6] scenarioBdrawn))) [0, 1, 2, 3, 4, 5, 6]
       = map ((!) scenarioBdrawn) [0, 1, 2, 3, 4, 5, 6]"
proof -
  have h: "list_all (\<lambda>r. r < length scenarioBdrawn) [0, 1, 2, 3, 4, 5, 6]"
    by (simp add: scenarioBdrawn_def)
  from constructor_input_unchanged [OF h] h show ?thesis by blast
qed

subsection \<open>The examples come from drawings\<close>

text \<open>
  The lists used as examples above are what the normalization produces from
  drawings: scenario B, the drawing whose first outlet lies before its tee, the
  drawing without diameters and the drawing without flow.
\<close>

lemma fillTee_scenarioB:
  "readAll (fillTee [0, 1, 2, 3, 4, 5, 6] scenarioBdrawn) = scenarioB"
  by code_simp

lemma normalized_scenarioB:
  "readAll (normalized [0, 1, 2, 3, 4, 5, 6] scenarioBdrawn) = scenarioBfilled"
  by code_simp

lemma fillTee_outletBeforeTee:
  "readAll (fillTee [0, 1, 2, 3, 4, 5, 6] outletBeforeTeeDrawn) = sideBeforeMain"
  by code_simp

lemma normalized_noDiameter:
  "insertReducersForDiameterChanges
     (splitByOutlet (readAll (normalized [0, 1, 2] noDiameterDrawn))) = [noDiameterPath]"
  by code_simp

lemma normalized_teeNoFlow:
  "insertReducersForDiameterChanges
     (splitByOutlet (readAll (normalized [0, 1, 2, 3, 4] teeNoFlowDrawn))) = [teeNoFlowPath]"
  by code_simp

end
